theory Spec2Isabelle
  imports Main "HOL-Library.Word"
begin

section \<open>C strings, libc and libbson helpers used by mongoc-uri.c\<close>

text \<open>
  A C string is the list of its characters before the terminating NUL, so no element
  of such a list is NUL. A pointer into a string (a cursor) is the suffix starting
  there: \<open>*p == 0\<close> is \<open>p = []\<close>, \<open>p + 1\<close> is \<open>tl p\<close>, \<open>p + n\<close> is \<open>drop n p\<close>,
  and \<open>bson_strndup (p, n)\<close> is \<open>take n p\<close>.
\<close>

definition isdigit :: "char \<Rightarrow> bool" where
  "isdigit c \<longleftrightarrow> c \<in> set ''0123456789''"

definition isspace :: "char \<Rightarrow> bool" where
  "isspace c \<longleftrightarrow> c \<in> set [CHR '' '', CHR 0x09, CHR 0x0A, CHR 0x0B, CHR 0x0C, CHR 0x0D]"

definition tolower :: "char \<Rightarrow> char" where
  "tolower c =
     (case map_of (zip ''ABCDEFGHIJKLMNOPQRSTUVWXYZ'' ''abcdefghijklmnopqrstuvwxyz'') c of
        Some l \<Rightarrow> l
      | None \<Rightarrow> c)"

text \<open>\<open>strcasecmp0 a b\<close> is \<open>!strcasecmp (a, b)\<close> in the C locale.\<close>

definition strcasecmp0 :: "string \<Rightarrow> string \<Rightarrow> bool" where
  "strcasecmp0 a b \<longleftrightarrow> map tolower a = map tolower b"

text \<open>
  \<open>strstr (haystack, needle)\<close>: the offset of the first occurrence of the needle, \<open>None\<close>
  for a NULL result.
\<close>

fun strstr :: "string \<Rightarrow> string \<Rightarrow> nat option" where
  "strstr [] needle = (if needle = [] then Some 0 else None)"
| "strstr (c # cs) needle =
     (if take (length needle) (c # cs) = needle then Some 0
      else map_option Suc (strstr cs needle))"

definition digit_val :: "char \<Rightarrow> nat" where
  "digit_val c = of_char c - of_char CHR ''0''"

text \<open>The value of a string of decimal digits, most significant digit first.\<close>

definition decimal :: "string \<Rightarrow> nat" where
  "decimal ds = foldl (\<lambda>n c. 10 * n + digit_val c) 0 ds"

text \<open>
  \<open>sscanf (s, "%hu", &port)\<close>, called only where \<open>s\<close> starts with a digit: the leading
  digits are converted as \<open>strtoul\<close> does with a 64-bit \<open>unsigned long\<close>, so a value
  beyond \<open>ULONG_MAX\<close> becomes \<open>ULONG_MAX\<close>, and the result is stored in an unsigned
  16-bit object, which keeps it modulo \<open>2 ^ 16\<close>: 65535 for every text from \<open>2 ^ 64\<close> on.
\<close>

definition ULONG_MAX :: nat where
  "ULONG_MAX = 2 ^ 64 - 1"

definition sscanf_hu :: "string \<Rightarrow> 16 word" where
  "sscanf_hu s = of_nat (min (decimal (takeWhile isdigit s)) ULONG_MAX)"

text \<open>
  \<open>strtol (s, NULL, 10)\<close> with a 64-bit \<open>long\<close>: white space is skipped, an optional sign
  is read, then the leading digits; with no digit the result is 0, and a value out of
  range is clamped to \<open>LONG_MIN\<close> or \<open>LONG_MAX\<close>.
\<close>

definition LONG_MAX :: int where
  "LONG_MAX = 2 ^ 63 - 1"

definition LONG_MIN :: int where
  "LONG_MIN = - (2 ^ 63)"

definition strtol :: "string \<Rightarrow> int" where
  "strtol s =
     (let s1 = dropWhile isspace s;
          neg = (s1 \<noteq> [] \<and> hd s1 = CHR ''-'');
          s2 = (if s1 \<noteq> [] \<and> (hd s1 = CHR ''-'' \<or> hd s1 = CHR ''+'') then tl s1 else s1);
          n = int (decimal (takeWhile isdigit s2))
      in if neg then max (- n) LONG_MIN else min n LONG_MAX)"

text \<open>\<open>snprintf\<close> with \<open>%hu\<close> or \<open>%u\<close>: the decimal digits of a number.\<close>

fun show_nat :: "nat \<Rightarrow> string" where
  "show_nat n =
     (if n < 10 then [''0123456789'' ! n]
      else show_nat (n div 10) @ [''0123456789'' ! (n mod 10)])"

declare show_nat.simps [simp del]

text \<open>
  Modelled from the spec: \<open>bson_t\<close> and its \<open>bson_append_*\<close> and \<open>bson_count_keys\<close>
  functions belong to libbson, which is not among the sources. The spec uses the
  document only as an ordered container of key/value entries to which an append adds
  one entry at the end, whatever keys are already there.
\<close>

datatype bson_value =
    BSON_INT32 "32 word"
  | BSON_BOOL bool
  | BSON_UTF8 string
  | BSON_DOCUMENT "(string \<times> bson_value) list"

type_synonym bson_t = "(string \<times> bson_value) list"

definition bson_append_int32 :: "bson_t \<Rightarrow> string \<Rightarrow> 32 word \<Rightarrow> bson_t" where
  "bson_append_int32 b key v = b @ [(key, BSON_INT32 v)]"

definition bson_append_bool :: "bson_t \<Rightarrow> string \<Rightarrow> bool \<Rightarrow> bson_t" where
  "bson_append_bool b key v = b @ [(key, BSON_BOOL v)]"

definition bson_append_utf8 :: "bson_t \<Rightarrow> string \<Rightarrow> string \<Rightarrow> bson_t" where
  "bson_append_utf8 b key v = b @ [(key, BSON_UTF8 v)]"

definition bson_append_document :: "bson_t \<Rightarrow> string \<Rightarrow> bson_t \<Rightarrow> bson_t" where
  "bson_append_document b key v = b @ [(key, BSON_DOCUMENT v)]"

definition bson_count_keys :: "bson_t \<Rightarrow> nat" where
  "bson_count_keys b = length b"

section \<open>The data of mongoc-uri.c\<close>

datatype family = AF_UNIX | AF_INET

text \<open>
  \<open>mongoc_host_list_t\<close> is declared in mongoc-host-list.h, which is not among the
  sources; the list is the \<open>next\<close> chain in order. The sizes of its two character
  arrays are parameters of the model.
\<close>

record host_list_layout =
  sizeof_host :: nat
  sizeof_host_and_port :: nat

record mongoc_host_list_t =
  hl_host :: string
  hl_host_and_port :: string
  hl_port :: "16 word"
  hl_family :: family

text \<open>\<open>struct _mongoc_uri_t\<close>; a \<open>char *\<close> field is \<open>None\<close> when it is NULL.\<close>

record mongoc_uri_t =
  uri_str :: "string option"
  uri_hosts :: "mongoc_host_list_t list"
  uri_username :: "string option"
  uri_password :: "string option"
  uri_database :: "string option"
  uri_options :: bson_t
  uri_read_prefs :: bson_t
  uri_write_concern :: bson_t

definition MONGOC_DEFAULT_PORT :: "16 word" where
  "MONGOC_DEFAULT_PORT = 27017"

section \<open>The parser\<close>

definition mongoc_uri_append_host ::
  "host_list_layout \<Rightarrow> mongoc_uri_t \<Rightarrow> string \<Rightarrow> 16 word \<Rightarrow> mongoc_uri_t" where
  "mongoc_uri_append_host sz uri host port =
     (let link = \<lparr> hl_host = take (sizeof_host sz - 1) host,
                   hl_host_and_port =
                     take (sizeof_host_and_port sz - 1) (host @ '':'' @ show_nat (unat port)),
                   hl_port = port,
                   hl_family = (if strstr host ''.sock'' \<noteq> None then AF_UNIX else AF_INET) \<rparr>
      in uri\<lparr> uri_hosts := uri_hosts uri @ [link] \<rparr>)"

text \<open>
  Modelled from the spec: \<open>bson_utf8_get_char\<close> and \<open>bson_utf8_next_char\<close> belong to
  libbson; the scanner goes through the string character by character, so the string is
  taken as the list of its characters.

  \<open>scan_to_unichar str stop\<close> is \<open>Some (s, end)\<close> when the C function returns the copy
  \<open>s\<close> and sets \<open>*end\<close> to the cursor at the stop character, and \<open>None\<close> when it returns
  NULL (\<open>*end\<close> is then left alone). A backslash skips the character after it; a
  backslash at the end of the string ends the scan.
\<close>

fun scan_to_unichar :: "string \<Rightarrow> char \<Rightarrow> (string \<times> string) option" where
  "scan_to_unichar [] stop = None"
| "scan_to_unichar (c # cs) stop =
     (if c = stop then Some ([], c # cs)
      else if c = CHR 0x5C then
        (case cs of
           [] \<Rightarrow> None
         | d # ds \<Rightarrow> map_option (\<lambda>(s, e). (c # d # s, e)) (scan_to_unichar ds stop))
      else map_option (\<lambda>(s, e). (c # s, e)) (scan_to_unichar cs stop))"

text \<open>
  The parsing functions that take \<open>const char **end\<close> get the value of \<open>*end\<close> before
  the call as \<open>end0\<close> and return its value after the call. Every function returns the
  \<open>mongoc_uri_t\<close> as it has left it, also when it fails.
\<close>

definition mongoc_uri_parse_scheme :: "string \<Rightarrow> string \<Rightarrow> bool \<times> string" where
  "mongoc_uri_parse_scheme str end0 =
     (if take 10 str \<noteq> ''mongodb://'' then (False, end0) else (True, drop 10 str))"

definition mongoc_uri_parse_userpass ::
  "mongoc_uri_t \<Rightarrow> string \<Rightarrow> string \<Rightarrow> bool \<times> mongoc_uri_t \<times> string" where
  "mongoc_uri_parse_userpass uri str end0 =
     (case scan_to_unichar str CHR ''@'' of
        Some (s, end_userpass) \<Rightarrow>
          (case scan_to_unichar s CHR '':'' of
             Some (user, end_user) \<Rightarrow>
               (True, uri\<lparr> uri_username := Some user, uri_password := Some (tl end_user) \<rparr>,
                tl end_userpass)
           | None \<Rightarrow> (False, uri\<lparr> uri_username := None \<rparr>, end0))
      | None \<Rightarrow> (True, uri, end0))"

definition mongoc_uri_parse_host ::
  "host_list_layout \<Rightarrow> mongoc_uri_t \<Rightarrow> string \<Rightarrow> bool \<times> mongoc_uri_t" where
  "mongoc_uri_parse_host sz uri str =
     (case scan_to_unichar str CHR '':'' of
        Some (hostname, end_host) \<Rightarrow>
          (let end_host1 = tl end_host in
           if \<not> (end_host1 \<noteq> [] \<and> isdigit (hd end_host1)) then (False, uri)
           else (True, mongoc_uri_append_host sz uri hostname (sscanf_hu end_host1)))
      | None \<Rightarrow> (True, mongoc_uri_append_host sz uri str MONGOC_DEFAULT_PORT))"

text \<open>
  One pass through the body of \<open>mongoc_uri_parse_hosts\<close> from the label \<open>again\<close>: either
  \<open>goto again\<close> with new values of \<open>uri\<close>, \<open>str\<close> and \<open>ret\<close>, or a return with the result,
  the \<open>uri\<close> and the value of \<open>*end\<close>.
\<close>

datatype ('s, 'r) step = Again 's | Return 'r

definition sock_path :: "string \<Rightarrow> nat option" where
  "sock_path str =
     (if str \<noteq> [] \<and> hd str = CHR ''/'' then
        (case strstr str ''.sock'' of
           None \<Rightarrow> None
         | Some sock \<Rightarrow>
             if (case strstr str '','' of None \<Rightarrow> True | Some tmp \<Rightarrow> tmp > sock) \<and>
                (case strstr str ''?'' of None \<Rightarrow> True | Some tmp \<Rightarrow> tmp > sock)
             then Some sock else None)
      else None)"

definition mongoc_uri_parse_hosts_step ::
  "host_list_layout \<Rightarrow> string \<Rightarrow> mongoc_uri_t \<times> string \<times> bool \<Rightarrow>
     (mongoc_uri_t \<times> string \<times> bool, bool \<times> mongoc_uri_t \<times> string) step" where
  "mongoc_uri_parse_hosts_step sz end0 = (\<lambda>(uri, str, ret).
     case sock_path str of
       Some sock \<Rightarrow>
         (let (ok, uri1) = mongoc_uri_parse_host sz uri (take (sock + 5) str) in
          if \<not> ok then Return (False, uri1, end0)
          else
            (let str1 = drop (sock + 5) str in
             if str1 \<noteq> [] \<and> hd str1 = CHR '','' then Again (uri1, tl str1, True)
             else Return (True, uri1, end0)))
     | None \<Rightarrow>
         (case scan_to_unichar str CHR '','' of
            Some (s, end_hostport) \<Rightarrow>
              (let (ok, uri1) = mongoc_uri_parse_host sz uri s in
               if \<not> ok then Return (False, uri1, end0)
               else Again (uri1, tl end_hostport, True))
          | None \<Rightarrow>
              (case (case scan_to_unichar str CHR ''/'' of
                       Some r \<Rightarrow> Some r
                     | None \<Rightarrow> scan_to_unichar str CHR ''?'') of
                 Some (s, end_hostport) \<Rightarrow>
                   (let (ok, uri1) = mongoc_uri_parse_host sz uri s in
                    if \<not> ok then Return (False, uri1, end0)
                    else Return (True, uri1, end_hostport))
               | None \<Rightarrow>
                   if str \<noteq> [] then
                     (let (ok, uri1) = mongoc_uri_parse_host sz uri str in
                      if \<not> ok then Return (False, uri1, end0)
                      else Return (True, uri1, []))
                   else Return (ret, uri, end0))))"

lemma scan_to_unichar_split:
  "scan_to_unichar str stop = Some (s, e) \<Longrightarrow> str = s @ e \<and> e \<noteq> [] \<and> hd e = stop"
proof (induction str stop arbitrary: s rule: scan_to_unichar.induct)
  case (1 stop)
  then show ?case by simp
next
  case (2 c cs stop)
  show ?case
  proof (cases "c = stop")
    case True
    with "2.prems" show ?thesis by auto
  next
    case ne: False
    show ?thesis
    proof (cases "c = CHR 0x5C")
      case True
      with ne "2.prems" obtain d ds s' where cs: "cs = d # ds"
        and r: "scan_to_unichar ds stop = Some (s', e)" and s: "s = c # d # s'"
        by (auto split: list.splits)
      from "2.IH"(1) [OF ne True cs r] s cs show ?thesis by simp
    next
      case False
      with ne "2.prems" obtain s' where r: "scan_to_unichar cs stop = Some (s', e)"
        and s: "s = c # s'"
        by auto
      from "2.IH"(2) [OF ne False r] s show ?thesis by simp
    qed
  qed
qed

lemma scan_to_unichar_advance:
  "scan_to_unichar str stop = Some (s, e) \<Longrightarrow> length (tl e) < length str"
  using scan_to_unichar_split [of str stop s e] by (cases e) auto

lemma hosts_step_advance:
  "mongoc_uri_parse_hosts_step sz end0 (uri, str, ret) = Again (uri', str', ret') \<Longrightarrow>
     length str' < length str"
  unfolding mongoc_uri_parse_hosts_step_def
  by (auto simp: Let_def split: option.splits prod.splits if_splits
        dest: scan_to_unichar_advance)

function mongoc_uri_parse_hosts_loop ::
  "host_list_layout \<Rightarrow> string \<Rightarrow> mongoc_uri_t \<times> string \<times> bool \<Rightarrow>
     bool \<times> mongoc_uri_t \<times> string" where
  "mongoc_uri_parse_hosts_loop sz end0 st =
     (case mongoc_uri_parse_hosts_step sz end0 st of
        Again st' \<Rightarrow> mongoc_uri_parse_hosts_loop sz end0 st'
      | Return r \<Rightarrow> r)"
  by pat_completeness auto
termination
  by (relation "measure (\<lambda>(sz, end0, uri, str, ret). length str)")
     (auto dest: hosts_step_advance)

declare mongoc_uri_parse_hosts_loop.simps [simp del]

definition mongoc_uri_parse_hosts ::
  "host_list_layout \<Rightarrow> mongoc_uri_t \<Rightarrow> string \<Rightarrow> string \<Rightarrow> bool \<times> mongoc_uri_t \<times> string" where
  "mongoc_uri_parse_hosts sz uri str end0 = mongoc_uri_parse_hosts_loop sz end0 (uri, str, False)"

definition mongoc_uri_parse_database ::
  "mongoc_uri_t \<Rightarrow> string \<Rightarrow> string \<Rightarrow> bool \<times> mongoc_uri_t \<times> string" where
  "mongoc_uri_parse_database uri str end0 =
     (case scan_to_unichar str CHR ''?'' of
        Some (db, end_database) \<Rightarrow> (True, uri\<lparr> uri_database := Some db \<rparr>, end_database)
      | None \<Rightarrow>
          if str \<noteq> [] then (True, uri\<lparr> uri_database := Some str \<rparr>, [])
          else (True, uri\<lparr> uri_database := None \<rparr>, end0))"

text \<open>
  One pass through the body of \<open>mongoc_uri_parse_read_prefs\<close> from the label \<open>again\<close>,
  on the document \<open>b\<close> and the cursor \<open>str\<close>; the return carries the finished \<open>b\<close>.
\<close>

definition mongoc_uri_parse_read_prefs_step ::
  "bson_t \<times> string \<Rightarrow> (bson_t \<times> string, bson_t) step" where
  "mongoc_uri_parse_read_prefs_step = (\<lambda>(b, str).
     case scan_to_unichar str CHR '','' of
       Some (keyval, end_keyval) \<Rightarrow>
         Again ((case scan_to_unichar keyval CHR '':'' of
                   Some (key, end_key) \<Rightarrow> bson_append_utf8 b key (tl end_key)
                 | None \<Rightarrow> b),
                tl end_keyval)
     | None \<Rightarrow>
         Return (case scan_to_unichar str CHR '':'' of
                   Some (key, end_key) \<Rightarrow> bson_append_utf8 b key (tl end_key)
                 | None \<Rightarrow> b))"

lemma read_prefs_step_advance:
  "mongoc_uri_parse_read_prefs_step (b, str) = Again (b', str') \<Longrightarrow> length str' < length str"
  unfolding mongoc_uri_parse_read_prefs_step_def
  by (auto split: option.splits dest: scan_to_unichar_advance)

function mongoc_uri_parse_read_prefs_loop :: "bson_t \<times> string \<Rightarrow> bson_t" where
  "mongoc_uri_parse_read_prefs_loop st =
     (case mongoc_uri_parse_read_prefs_step st of
        Again st' \<Rightarrow> mongoc_uri_parse_read_prefs_loop st'
      | Return b \<Rightarrow> b)"
  by pat_completeness auto
termination
  by (relation "measure (\<lambda>(b, str). length str)") (auto dest: read_prefs_step_advance)

declare mongoc_uri_parse_read_prefs_loop.simps [simp del]

definition mongoc_uri_parse_read_prefs :: "mongoc_uri_t \<Rightarrow> string \<Rightarrow> mongoc_uri_t" where
  "mongoc_uri_parse_read_prefs uri str =
     (let b = mongoc_uri_parse_read_prefs_loop ([], str);
          i = bson_count_keys (uri_read_prefs uri);
          keystr = show_nat i
      in uri\<lparr> uri_read_prefs := bson_append_document (uri_read_prefs uri) keystr b \<rparr>)"

definition mongoc_uri_parse_option :: "mongoc_uri_t \<Rightarrow> string \<Rightarrow> bool \<times> mongoc_uri_t" where
  "mongoc_uri_parse_option uri str =
     (case scan_to_unichar str CHR ''='' of
        None \<Rightarrow> (False, uri)
      | Some (key, end_key) \<Rightarrow>
          (let v = tl end_key in
           if strcasecmp0 key ''connecttimeoutms'' \<or>
              strcasecmp0 key ''sockettimeoutms'' \<or>
              strcasecmp0 key ''maxpoolsize'' \<or>
              strcasecmp0 key ''minpoolsize'' \<or>
              strcasecmp0 key ''maxidletimems'' \<or>
              strcasecmp0 key ''waitqueuemultiple'' \<or>
              strcasecmp0 key ''waitqueuetimeoutms'' \<or>
              strcasecmp0 key ''wtimeoutms''
           then (True, uri\<lparr> uri_options :=
                   bson_append_int32 (uri_options uri) key (word_of_int (strtol v)) \<rparr>)
           else if strcasecmp0 key ''w'' then
             (if v \<noteq> [] \<and> (hd v = CHR ''-'' \<or> isdigit (hd v))
              then (True, uri\<lparr> uri_options :=
                      bson_append_int32 (uri_options uri) key (word_of_int (strtol v)) \<rparr>)
              else (True, uri\<lparr> uri_options := bson_append_utf8 (uri_options uri) key v \<rparr>))
           else if strcasecmp0 key ''journal'' \<or>
                   strcasecmp0 key ''slaveok'' \<or>
                   strcasecmp0 key ''ssl''
           then (True, uri\<lparr> uri_options :=
                   bson_append_bool (uri_options uri) key (v = ''true'') \<rparr>)
           else if strcasecmp0 key ''readpreferencetags''
           then (True, mongoc_uri_parse_read_prefs uri v)
           else (True, uri\<lparr> uri_options := bson_append_utf8 (uri_options uri) key v \<rparr>)))"

text \<open>One pass through the body of \<open>mongoc_uri_parse_options\<close> from the label \<open>again\<close>.\<close>

definition mongoc_uri_parse_options_step ::
  "mongoc_uri_t \<times> string \<Rightarrow> (mongoc_uri_t \<times> string, bool \<times> mongoc_uri_t) step" where
  "mongoc_uri_parse_options_step = (\<lambda>(uri, str).
     case scan_to_unichar str CHR ''&'' of
       Some (option, end_option) \<Rightarrow>
         (let (ok, uri1) = mongoc_uri_parse_option uri option in
          if \<not> ok then Return (False, uri1)
          else Again (uri1, tl end_option))
     | None \<Rightarrow>
         if str \<noteq> [] then
           (let (ok, uri1) = mongoc_uri_parse_option uri str in
            if \<not> ok then Return (False, uri1) else Return (True, uri1))
         else Return (True, uri))"

lemma options_step_advance:
  "mongoc_uri_parse_options_step (uri, str) = Again (uri', str') \<Longrightarrow> length str' < length str"
  unfolding mongoc_uri_parse_options_step_def
  by (auto simp: Let_def split: option.splits prod.splits if_splits
        dest: scan_to_unichar_advance)

function mongoc_uri_parse_options_loop ::
  "mongoc_uri_t \<times> string \<Rightarrow> bool \<times> mongoc_uri_t" where
  "mongoc_uri_parse_options_loop st =
     (case mongoc_uri_parse_options_step st of
        Again st' \<Rightarrow> mongoc_uri_parse_options_loop st'
      | Return r \<Rightarrow> r)"
  by pat_completeness auto
termination
  by (relation "measure (\<lambda>(uri, str). length str)") (auto dest: options_step_advance)

declare mongoc_uri_parse_options_loop.simps [simp del]

definition mongoc_uri_parse_options :: "mongoc_uri_t \<Rightarrow> string \<Rightarrow> bool \<times> mongoc_uri_t" where
  "mongoc_uri_parse_options uri str = mongoc_uri_parse_options_loop (uri, str)"

text \<open>
  The statements under \<open>case '?'\<close> of the switch in \<open>mongoc_uri_parse\<close>, which
  \<open>case '/'\<close> falls through to.
\<close>

definition mongoc_uri_parse_case_question ::
  "mongoc_uri_t \<Rightarrow> string \<Rightarrow> bool \<times> mongoc_uri_t" where
  "mongoc_uri_parse_case_question uri str =
     (let str1 = tl str in
      if str1 \<noteq> [] then mongoc_uri_parse_options uri str1 else (True, uri))"

text \<open>The \<open>switch (*str)\<close> statement that ends \<open>mongoc_uri_parse\<close>.\<close>

definition mongoc_uri_parse_switch :: "mongoc_uri_t \<Rightarrow> string \<Rightarrow> bool \<times> mongoc_uri_t" where
  "mongoc_uri_parse_switch uri str =
     (if str \<noteq> [] \<and> hd str = CHR ''/'' then
        (let str1 = tl str;
             (ok, uri1, str2) =
               (if str1 \<noteq> [] then mongoc_uri_parse_database uri str1 str1
                else (True, uri, str1))
         in if \<not> ok then (False, uri1)
            else if str2 = [] then (True, uri1)
            else mongoc_uri_parse_case_question uri1 str2)
      else if str \<noteq> [] \<and> hd str = CHR ''?'' then mongoc_uri_parse_case_question uri str
      else (True, uri))"

definition mongoc_uri_parse ::
  "host_list_layout \<Rightarrow> mongoc_uri_t \<Rightarrow> string \<Rightarrow> bool \<times> mongoc_uri_t" where
  "mongoc_uri_parse sz uri str =
     (let (ok1, str1) = mongoc_uri_parse_scheme str str in
      if \<not> ok1 then (False, uri)
      else if str1 = [] then (False, uri)
      else
        (let (ok2, uri2, str2) = mongoc_uri_parse_userpass uri str1 str1 in
         if \<not> ok2 then (False, uri2)
         else if str2 = [] then (False, uri2)
         else
           (let (ok3, uri3, str3) = mongoc_uri_parse_hosts sz uri2 str2 str2 in
            if \<not> ok3 then (False, uri3)
            else mongoc_uri_parse_switch uri3 str3)))"

text \<open>
  \<open>mongoc_uri_new\<close>: the structure after \<open>bson_malloc0\<close> and the three \<open>bson_init\<close>
  calls is \<open>uri_zero\<close>; NULL is \<open>None\<close>. On failure the structure is destroyed.
\<close>

definition uri_zero :: mongoc_uri_t where
  "uri_zero = \<lparr> uri_str = None, uri_hosts = [], uri_username = None, uri_password = None,
                uri_database = None, uri_options = [], uri_read_prefs = [],
                uri_write_concern = [] \<rparr>"

definition mongoc_uri_new :: "host_list_layout \<Rightarrow> string \<Rightarrow> mongoc_uri_t option" where
  "mongoc_uri_new sz uri_string =
     (let (ok, uri) = mongoc_uri_parse sz uri_zero uri_string in
      if \<not> ok then None else Some (uri\<lparr> uri_str := Some uri_string \<rparr>))"

section \<open>Definitions used to state the claims\<close>

text \<open>What a function leaves alone: every field but the ones it is there to fill.\<close>

definition same_but_hosts :: "mongoc_uri_t \<Rightarrow> mongoc_uri_t \<Rightarrow> bool" where
  "same_but_hosts uri uri' \<longleftrightarrow>
     uri_str uri' = uri_str uri \<and> uri_username uri' = uri_username uri \<and>
     uri_password uri' = uri_password uri \<and> uri_database uri' = uri_database uri \<and>
     uri_options uri' = uri_options uri \<and> uri_read_prefs uri' = uri_read_prefs uri \<and>
     uri_write_concern uri' = uri_write_concern uri"

definition same_but_options :: "mongoc_uri_t \<Rightarrow> mongoc_uri_t \<Rightarrow> bool" where
  "same_but_options uri uri' \<longleftrightarrow>
     uri_str uri' = uri_str uri \<and> uri_hosts uri' = uri_hosts uri \<and>
     uri_username uri' = uri_username uri \<and> uri_password uri' = uri_password uri \<and>
     uri_database uri' = uri_database uri \<and> uri_write_concern uri' = uri_write_concern uri \<and>
     (\<exists>new. uri_options uri' = uri_options uri @ new) \<and>
     (\<exists>new. uri_read_prefs uri' = uri_read_prefs uri @ new)"

definition same_but_userpass :: "mongoc_uri_t \<Rightarrow> mongoc_uri_t \<Rightarrow> bool" where
  "same_but_userpass uri uri' \<longleftrightarrow>
     uri_str uri' = uri_str uri \<and> uri_hosts uri' = uri_hosts uri \<and>
     uri_database uri' = uri_database uri \<and> uri_options uri' = uri_options uri \<and>
     uri_read_prefs uri' = uri_read_prefs uri \<and> uri_write_concern uri' = uri_write_concern uri"

text \<open>
  The cursor \<open>str\<close> of \<open>mongoc_uri_parse\<close> when the host-list stage has returned: the
  scheme is skipped, then the userinfo and host-list stages have run.
\<close>

definition cursor_after_hosts :: "host_list_layout \<Rightarrow> string \<Rightarrow> string" where
  "cursor_after_hosts sz s =
     (let (ok2, uri2, str2) = mongoc_uri_parse_userpass uri_zero (drop 10 s) (drop 10 s);
          (ok3, uri3, str3) = mongoc_uri_parse_hosts sz uri2 str2 str2
      in str3)"

text \<open>A host entry as the spec reads it: host name, port and address family.\<close>

definition host_entry :: "mongoc_host_list_t \<Rightarrow> string \<times> 16 word \<times> family" where
  "host_entry h = (hl_host h, hl_port h, hl_family h)"

text \<open>
  The tag sub-grammar in the words of the spec: the value is split into tokens at the
  commas the scanner finds, and a token contributes its key and value when the scanner
  finds a colon in it, and nothing otherwise.
\<close>

function spec_split_unescaped :: "char \<Rightarrow> string \<Rightarrow> string list" where
  "spec_split_unescaped sep s =
     (case scan_to_unichar s sep of
        Some (tok, e) \<Rightarrow> tok # spec_split_unescaped sep (tl e)
      | None \<Rightarrow> [s])"
  by pat_completeness auto
termination
  by (relation "measure (\<lambda>(sep, s). length s)") (auto dest: scan_to_unichar_advance)

declare spec_split_unescaped.simps [simp del]

definition spec_tag_pairs :: "string \<Rightarrow> bson_t" where
  "spec_tag_pairs tok =
     (case scan_to_unichar tok CHR '':'' of
        Some (key, e) \<Rightarrow> [(key, BSON_UTF8 (tl e))]
      | None \<Rightarrow> [])"

definition spec_tag_group :: "string \<Rightarrow> bson_t" where
  "spec_tag_group v = concat (map spec_tag_pairs (spec_split_unescaped CHR '','' v))"

text \<open>
  A loop run for at most \<open>n\<close> passes through its body: \<open>None\<close> when the body has not
  returned by then.
\<close>

primrec run_steps :: "nat \<Rightarrow> ('s \<Rightarrow> ('s, 'r) step) \<Rightarrow> 's \<Rightarrow> 'r option" where
  "run_steps 0 body st = None"
| "run_steps (Suc n) body st =
     (case body st of
        Again st' \<Rightarrow> run_steps n body st'
      | Return r \<Rightarrow> Some r)"

text \<open>
  One pass through the \<open>for\<close> loop of \<open>scan_to_unichar\<close> on the cursor \<open>iter\<close>: the loop
  is left with \<open>*end\<close> set to \<open>iter\<close> at the stop character, or with NULL at the end of
  the string or at a backslash that ends it; otherwise \<open>iter\<close> moves on by one
  character, or by two after a backslash.
\<close>

definition scan_to_unichar_step :: "char \<Rightarrow> string \<Rightarrow> (string, string option) step" where
  "scan_to_unichar_step stop iter =
     (case iter of
        [] \<Rightarrow> Return None
      | c # cs \<Rightarrow>
          if c = stop then Return (Some iter)
          else if c = CHR 0x5C then
            (case cs of
               [] \<Rightarrow> Return None
             | d # ds \<Rightarrow> Again ds)
          else Again cs)"

text \<open>
  The failures of the parse in the words of the spec. The option text is what follows
  the \<open>?\<close> that the cursor is at, or that ends the database; the option tokens are its
  parts between the \<open>&\<close> the scanner finds, without an empty last part.
\<close>

function spec_option_tokens :: "string \<Rightarrow> string list" where
  "spec_option_tokens str =
     (case scan_to_unichar str CHR ''&'' of
        Some (tok, e) \<Rightarrow> tok # spec_option_tokens (tl e)
      | None \<Rightarrow> if str \<noteq> [] then [str] else [])"
  by pat_completeness auto
termination
  by (relation "measure length") (auto dest: scan_to_unichar_advance)

declare spec_option_tokens.simps [simp del]

definition spec_options_text :: "string \<Rightarrow> string" where
  "spec_options_text str =
     (case str of
        [] \<Rightarrow> []
      | c # r \<Rightarrow>
          if c = CHR ''/'' then
            (case scan_to_unichar r CHR ''?'' of
               Some (db, e) \<Rightarrow> tl e
             | None \<Rightarrow> [])
          else if c = CHR ''?'' then r
          else [])"

text \<open>
  The host tokens: a socket path up to the end of \<open>.sock\<close>, else the text up to the next
  comma the scanner finds, else up to the next \<open>/\<close> or \<open>?\<close>, else the rest. A host token
  is accepted when it has no colon or a digit after its first colon.
\<close>

function spec_host_tokens :: "string \<Rightarrow> string list" where
  "spec_host_tokens str =
     (case sock_path str of
        Some sock \<Rightarrow>
          take (sock + 5) str #
            (if drop (sock + 5) str \<noteq> [] \<and> hd (drop (sock + 5) str) = CHR '',''
             then spec_host_tokens (tl (drop (sock + 5) str)) else [])
      | None \<Rightarrow>
          (case scan_to_unichar str CHR '','' of
             Some (tok, e) \<Rightarrow> tok # spec_host_tokens (tl e)
           | None \<Rightarrow>
               (case (case scan_to_unichar str CHR ''/'' of
                        Some r \<Rightarrow> Some r
                      | None \<Rightarrow> scan_to_unichar str CHR ''?'') of
                  Some (tok, e) \<Rightarrow> [tok]
                | None \<Rightarrow> if str \<noteq> [] then [str] else [])))"
  by pat_completeness auto
termination
proof (relation "measure length")
  show "wf (measure length)" by simp
next
  fix str :: string and sock :: nat
  assume "drop (sock + 5) str \<noteq> [] \<and> hd (drop (sock + 5) str) = CHR '',''"
  then have "length (tl (drop (sock + 5) str)) < length (drop (sock + 5) str)"
    by (cases "drop (sock + 5) str") auto
  then show "(tl (drop (sock + 5) str), str) \<in> measure length" by simp
next
  fix str :: string and x2 :: "string \<times> string" and tok e :: string
  assume "scan_to_unichar str CHR '','' = Some x2" "(tok, e) = x2"
  then show "(tl e, str) \<in> measure length"
    by (auto dest: scan_to_unichar_advance)
qed

declare spec_host_tokens.simps [simp del]

definition spec_host_token_ok :: "string \<Rightarrow> bool" where
  "spec_host_token_ok tok \<longleftrightarrow>
     (case scan_to_unichar tok CHR '':'' of
        Some (hostname, e) \<Rightarrow> tl e \<noteq> [] \<and> isdigit (hd (tl e))
      | None \<Rightarrow> True)"

definition spec_after_userinfo :: "string \<Rightarrow> string" where
  "spec_after_userinfo str =
     (case scan_to_unichar str CHR ''@'' of
        Some (s, e) \<Rightarrow> tl e
      | None \<Rightarrow> str)"

text \<open>
  The database text in the words of the spec: the text up to the next \<open>?\<close> the scanner
  finds, or all of it when there is none.
\<close>

definition spec_database_text :: "string \<Rightarrow> string" where
  "spec_database_text r =
     (case scan_to_unichar r CHR ''?'' of
        Some (db, e) \<Rightarrow> db
      | None \<Rightarrow> r)"

section \<open>Loop rules and what each stage leaves alone\<close>

lemma hosts_loop_rule:
  assumes "I st"
    and "\<And>st st'. I st \<Longrightarrow> mongoc_uri_parse_hosts_step sz end0 st = Again st' \<Longrightarrow> I st'"
    and "\<And>st r. I st \<Longrightarrow> mongoc_uri_parse_hosts_step sz end0 st = Return r \<Longrightarrow> Q r"
  shows "Q (mongoc_uri_parse_hosts_loop sz end0 st)"
  using assms
proof (induction sz end0 st rule: mongoc_uri_parse_hosts_loop.induct)
  case (1 sz end0 st)
  show ?case
  proof (cases "mongoc_uri_parse_hosts_step sz end0 st")
    case (Again st')
    have "Q (mongoc_uri_parse_hosts_loop sz end0 st')"
      using "1.IH" [OF Again "1.prems"(2) [OF "1.prems"(1) Again]] "1.prems"(2,3) by blast
    with Again show ?thesis by (simp add: mongoc_uri_parse_hosts_loop.simps [of sz end0 st])
  next
    case (Return r)
    with "1.prems"(3) [OF "1.prems"(1) Return] show ?thesis
      by (simp add: mongoc_uri_parse_hosts_loop.simps [of sz end0 st])
  qed
qed

lemma options_loop_rule:
  assumes "I st"
    and "\<And>st st'. I st \<Longrightarrow> mongoc_uri_parse_options_step st = Again st' \<Longrightarrow> I st'"
    and "\<And>st r. I st \<Longrightarrow> mongoc_uri_parse_options_step st = Return r \<Longrightarrow> Q r"
  shows "Q (mongoc_uri_parse_options_loop st)"
  using assms
proof (induction st rule: mongoc_uri_parse_options_loop.induct)
  case (1 st)
  show ?case
  proof (cases "mongoc_uri_parse_options_step st")
    case (Again st')
    have "Q (mongoc_uri_parse_options_loop st')"
      using "1.IH" [OF Again "1.prems"(2) [OF "1.prems"(1) Again]] "1.prems"(2,3) by blast
    with Again show ?thesis by (simp add: mongoc_uri_parse_options_loop.simps [of st])
  next
    case (Return r)
    with "1.prems"(3) [OF "1.prems"(1) Return] show ?thesis
      by (simp add: mongoc_uri_parse_options_loop.simps [of st])
  qed
qed

lemma same_but_hosts_refl [simp]: "same_but_hosts uri uri"
  by (simp add: same_but_hosts_def)

lemma same_but_hosts_trans:
  "same_but_hosts a b \<Longrightarrow> same_but_hosts b c \<Longrightarrow> same_but_hosts a c"
  by (simp add: same_but_hosts_def)

lemma append_host_same [simp]: "same_but_hosts uri (mongoc_uri_append_host sz uri host port)"
  by (simp add: same_but_hosts_def mongoc_uri_append_host_def)

lemma append_host_hosts:
  "\<exists>h. uri_hosts (mongoc_uri_append_host sz uri host port) = uri_hosts uri @ [h]"
  by (simp add: mongoc_uri_append_host_def)

lemma parse_host_result:
  assumes "mongoc_uri_parse_host sz uri s = (ok, uri')"
  shows "same_but_hosts uri uri' \<and>
     (if ok then \<exists>h. uri_hosts uri' = uri_hosts uri @ [h] else uri' = uri)"
proof (cases "scan_to_unichar s CHR '':''")
  case None
  with assms have "ok" "uri' = mongoc_uri_append_host sz uri s MONGOC_DEFAULT_PORT"
    by (simp_all add: mongoc_uri_parse_host_def)
  then show ?thesis by (simp add: append_host_hosts)
next
  case (Some r)
  obtain hostname end_host where r: "r = (hostname, end_host)" by (cases r)
  show ?thesis
  proof (cases "tl end_host \<noteq> [] \<and> isdigit (hd (tl end_host))")
    case True
    with assms Some r have "ok"
      "uri' = mongoc_uri_append_host sz uri hostname (sscanf_hu (tl end_host))"
      by (simp_all add: mongoc_uri_parse_host_def Let_def)
    then show ?thesis by (simp add: append_host_hosts)
  next
    case False
    with assms Some r have "\<not> ok" "uri' = uri"
      by (auto simp: mongoc_uri_parse_host_def Let_def)
    then show ?thesis by simp
  qed
qed

lemma hosts_step_Again:
  "mongoc_uri_parse_hosts_step sz end0 (uri, str, ret) = Again (uri', str', ret') \<Longrightarrow>
     ret' \<and> same_but_hosts uri uri' \<and> (\<exists>h. uri_hosts uri' = uri_hosts uri @ [h])"
  unfolding mongoc_uri_parse_hosts_step_def
  by (auto simp: Let_def split: option.splits prod.splits if_splits dest: parse_host_result)

lemma hosts_step_Return:
  "mongoc_uri_parse_hosts_step sz end0 (uri, str, ret) = Return (ok, uri', e) \<Longrightarrow>
     same_but_hosts uri uri' \<and>
     (ok \<longrightarrow> (ret \<and> uri' = uri) \<or> (\<exists>h. uri_hosts uri' = uri_hosts uri @ [h]))"
  unfolding mongoc_uri_parse_hosts_step_def
  by (auto simp: Let_def same_but_hosts_def split: option.splits prod.splits if_splits dest: parse_host_result)

lemma same_but_options_refl [simp]: "same_but_options uri uri"
  by (simp add: same_but_options_def)

lemma same_but_options_trans:
  "same_but_options a b \<Longrightarrow> same_but_options b c \<Longrightarrow> same_but_options a c"
  by (auto simp: same_but_options_def)

lemma parse_read_prefs_same: "same_but_options uri (mongoc_uri_parse_read_prefs uri v)"
  by (simp add: same_but_options_def mongoc_uri_parse_read_prefs_def Let_def
        bson_append_document_def)

lemma parse_option_None:
  "scan_to_unichar s CHR ''='' = None \<Longrightarrow> mongoc_uri_parse_option uri s = (False, uri)"
  by (simp add: mongoc_uri_parse_option_def)

lemma parse_option_Some_rule:
  assumes "scan_to_unichar s CHR ''='' = Some (key, e)"
    and "strcasecmp0 key ''readpreferencetags'' \<Longrightarrow>
           P (True, mongoc_uri_parse_read_prefs uri (tl e))"
    and "\<And>v. P (True, uri\<lparr> uri_options := uri_options uri @ [(key, v)] \<rparr>)"
  shows "P (mongoc_uri_parse_option uri s)"
  unfolding mongoc_uri_parse_option_def Let_def bson_append_int32_def
        bson_append_bool_def bson_append_utf8_def
  using assms by auto

lemma same_but_options_append [simp]:
  "same_but_options uri (uri\<lparr> uri_options := uri_options uri @ new \<rparr>)"
  by (simp add: same_but_options_def)

lemma parse_option_same':
  "same_but_options uri (snd (mongoc_uri_parse_option uri s))"
proof (cases "scan_to_unichar s CHR ''=''")
  case None
  from parse_option_None [OF None, of uri] show ?thesis by simp
next
  case (Some r)
  obtain key e where "r = (key, e)" by (cases r)
  with Some have "scan_to_unichar s CHR ''='' = Some (key, e)" by simp
  then show ?thesis
    by (rule parse_option_Some_rule) (simp_all add: parse_read_prefs_same)
qed

lemma parse_option_same:
  "mongoc_uri_parse_option uri s = (ok, uri') \<Longrightarrow> same_but_options uri uri'"
  using parse_option_same' [of uri s] by simp

lemma options_step_Again:
  "mongoc_uri_parse_options_step (uri, str) = Again (uri', str') \<Longrightarrow> same_but_options uri uri'"
  unfolding mongoc_uri_parse_options_step_def
  by (auto simp: Let_def split: option.splits prod.splits if_splits dest: parse_option_same)

lemma options_step_Return:
  "mongoc_uri_parse_options_step (uri, str) = Return (ok, uri') \<Longrightarrow> same_but_options uri uri'"
  unfolding mongoc_uri_parse_options_step_def
  by (auto simp: Let_def split: option.splits prod.splits if_splits dest: parse_option_same)

lemma parse_options_same:
  "same_but_options uri (snd (mongoc_uri_parse_options uri str))"
  unfolding mongoc_uri_parse_options_def
proof (rule options_loop_rule [where I = "\<lambda>(u, s). same_but_options uri u"])
  show "case (uri, str) of (u, s) \<Rightarrow> same_but_options uri u" by simp
next
  fix st st' :: "mongoc_uri_t \<times> string"
  assume "case st of (u, s) \<Rightarrow> same_but_options uri u"
    and "mongoc_uri_parse_options_step st = Again st'"
  then show "case st' of (u, s) \<Rightarrow> same_but_options uri u"
    by (cases st, cases st') (auto dest: options_step_Again same_but_options_trans)
next
  fix st :: "mongoc_uri_t \<times> string" and r :: "bool \<times> mongoc_uri_t"
  assume "case st of (u, s) \<Rightarrow> same_but_options uri u"
    and "mongoc_uri_parse_options_step st = Return r"
  then show "same_but_options uri (snd r)"
    by (cases st, cases r) (auto dest: options_step_Return same_but_options_trans)
qed

lemma parse_hosts_result:
  assumes "mongoc_uri_parse_hosts sz uri str end0 = (ok, uri', e)"
  shows "same_but_hosts uri uri' \<and> (ok \<longrightarrow> uri_hosts uri' \<noteq> [])"
proof -
  have "(\<lambda>(ok, u, e). same_but_hosts uri u \<and> (ok \<longrightarrow> uri_hosts u \<noteq> []))
          (mongoc_uri_parse_hosts_loop sz end0 (uri, str, False))"
  proof (rule hosts_loop_rule
      [where I = "\<lambda>(u, s, ret). same_but_hosts uri u \<and> (ret \<longrightarrow> uri_hosts u \<noteq> [])"])
    show "case (uri, str, False) of
            (u, s, ret) \<Rightarrow> same_but_hosts uri u \<and> (ret \<longrightarrow> uri_hosts u \<noteq> [])"
      by simp
  next
    fix st st' :: "mongoc_uri_t \<times> string \<times> bool"
    assume "case st of (u, s, ret) \<Rightarrow> same_but_hosts uri u \<and> (ret \<longrightarrow> uri_hosts u \<noteq> [])"
      and "mongoc_uri_parse_hosts_step sz end0 st = Again st'"
    then show "case st' of
                 (u, s, ret) \<Rightarrow> same_but_hosts uri u \<and> (ret \<longrightarrow> uri_hosts u \<noteq> [])"
      by (cases st, cases st') (auto dest!: hosts_step_Again intro: same_but_hosts_trans)
  next
    fix st :: "mongoc_uri_t \<times> string \<times> bool" and r :: "bool \<times> mongoc_uri_t \<times> string"
    assume "case st of (u, s, ret) \<Rightarrow> same_but_hosts uri u \<and> (ret \<longrightarrow> uri_hosts u \<noteq> [])"
      and "mongoc_uri_parse_hosts_step sz end0 st = Return r"
    then show "case r of (ok, u, e) \<Rightarrow> same_but_hosts uri u \<and> (ok \<longrightarrow> uri_hosts u \<noteq> [])"
      by (cases st, cases r) (auto dest!: hosts_step_Return intro: same_but_hosts_trans)
  qed
  with assms show ?thesis by (simp add: mongoc_uri_parse_hosts_def)
qed

lemma parse_userpass_same:
  "mongoc_uri_parse_userpass uri str end0 = (ok, uri', e) \<Longrightarrow> same_but_userpass uri uri'"
  by (auto simp: mongoc_uri_parse_userpass_def same_but_userpass_def split: option.splits)

lemma parse_database_result:
  "mongoc_uri_parse_database uri str end0 = (ok, uri', e) \<Longrightarrow>
     ok \<and> (\<exists>db. uri' = uri\<lparr> uri_database := db \<rparr>)"
  by (auto simp: mongoc_uri_parse_database_def split: option.splits if_splits)

lemma case_question_same:
  "mongoc_uri_parse_case_question uri str = (ok, uri') \<Longrightarrow> same_but_options uri uri'"
  using parse_options_same [of uri "tl str"]
  by (auto simp: mongoc_uri_parse_case_question_def Let_def split: if_splits)

text \<open>The switch fills the database and the options and leaves the rest alone.\<close>

lemma parse_switch_same:
  assumes "mongoc_uri_parse_switch uri str = (ok, uri')"
  shows "uri_str uri' = uri_str uri \<and> uri_hosts uri' = uri_hosts uri \<and>
     uri_username uri' = uri_username uri \<and> uri_password uri' = uri_password uri"
proof -
  have db: "\<And>u db. same_but_options (uri\<lparr> uri_database := db \<rparr>) u \<Longrightarrow>
      uri_str u = uri_str uri \<and> uri_hosts u = uri_hosts uri \<and>
      uri_username u = uri_username uri \<and> uri_password u = uri_password uri"
    by (simp add: same_but_options_def)
  have nodb: "\<And>u. same_but_options uri u \<Longrightarrow>
      uri_str u = uri_str uri \<and> uri_hosts u = uri_hosts uri \<and>
      uri_username u = uri_username uri \<and> uri_password u = uri_password uri"
    by (simp add: same_but_options_def)
  from assms show ?thesis
    unfolding mongoc_uri_parse_switch_def Let_def
    by (auto split: if_splits prod.splits
          dest!: parse_database_result case_question_same dest: db nodb)
qed

lemma mongoc_uri_parse_True:
  assumes "mongoc_uri_parse sz uri s = (True, u)"
  obtains uri2 str2 uri3 str3 where
    "take 10 s = ''mongodb://''" "drop 10 s \<noteq> []"
    "mongoc_uri_parse_userpass uri (drop 10 s) (drop 10 s) = (True, uri2, str2)"
    "str2 \<noteq> []"
    "mongoc_uri_parse_hosts sz uri2 str2 str2 = (True, uri3, str3)"
    "mongoc_uri_parse_switch uri3 str3 = (True, u)"
  using assms unfolding mongoc_uri_parse_def mongoc_uri_parse_scheme_def Let_def
  by (auto split: if_splits prod.splits)

lemma mongoc_uri_parse_hosts_nonempty:
  assumes "mongoc_uri_parse sz uri s = (True, u)"
  shows "uri_hosts u \<noteq> []"
proof -
  from assms obtain uri2 str2 uri3 str3 where
    h: "mongoc_uri_parse_hosts sz uri2 str2 str2 = (True, uri3, str3)"
    and sw: "mongoc_uri_parse_switch uri3 str3 = (True, u)"
    by (rule mongoc_uri_parse_True)
  from parse_hosts_result [OF h] have "uri_hosts uri3 \<noteq> []" by simp
  with parse_switch_same [OF sw] show ?thesis by simp
qed

section \<open>When a stage fails, and what a stage that succeeds has stored\<close>

lemma parse_host_ok: "fst (mongoc_uri_parse_host sz uri tok) = spec_host_token_ok tok"
  by (simp add: mongoc_uri_parse_host_def spec_host_token_ok_def Let_def split: option.splits)

lemma hosts_loop_tokens:
  "fst (mongoc_uri_parse_hosts_loop sz end0 st) \<longleftrightarrow>
     (\<forall>tok \<in> set (spec_host_tokens (fst (snd st))). spec_host_token_ok tok) \<and>
     (snd (snd st) \<or> fst (snd st) \<noteq> [])"
proof (induction sz end0 st rule: mongoc_uri_parse_hosts_loop.induct)
  case (1 sz end0 st)
  obtain uri str ret where st: "st = (uri, str, ret)" by (cases st)
  note loop = mongoc_uri_parse_hosts_loop.simps [of sz end0 "(uri, str, ret)"]
  note toks = spec_host_tokens.simps [of str]
  show ?case
  proof (cases "sock_path str")
    case (Some sock)
    then have ne: "str \<noteq> []" by (auto simp: sock_path_def)
    let ?tok = "take (sock + 5) str"
    let ?str1 = "drop (sock + 5) str"
    obtain ok uri1 where ph: "mongoc_uri_parse_host sz uri ?tok = (ok, uri1)"
      by (cases "mongoc_uri_parse_host sz uri ?tok")
    with parse_host_ok [of sz uri ?tok] have ok: "ok = spec_host_token_ok ?tok" by simp
    show ?thesis
    proof (cases ok)
      case False
      with Some ph have "mongoc_uri_parse_hosts_step sz end0 (uri, str, ret) =
          Return (False, uri1, end0)"
        by (simp add: mongoc_uri_parse_hosts_step_def)
      with False ok Some show ?thesis by (simp add: st loop toks)
    next
      case True
      show ?thesis
      proof (cases "?str1 \<noteq> [] \<and> hd ?str1 = CHR '',''")
        case c: True
        with Some ph True have step: "mongoc_uri_parse_hosts_step sz end0 st =
            Again (uri1, tl ?str1, True)"
          by (simp add: st mongoc_uri_parse_hosts_step_def Let_def)
        from "1.IH" [OF step] step True ok Some c ne show ?thesis
          by (simp add: st loop toks)
      next
        case c: False
        with Some ph True have "mongoc_uri_parse_hosts_step sz end0 (uri, str, ret) =
            Return (True, uri1, end0)"
          by (auto simp: mongoc_uri_parse_hosts_step_def Let_def)
        with True ok Some c ne show ?thesis by (auto simp: st loop toks)
      qed
    qed
  next
    case None
    show ?thesis
    proof (cases "scan_to_unichar str CHR '',''")
      case (Some x)
      obtain tok e where x: "x = (tok, e)" by (cases x)
      from Some have ne: "str \<noteq> []" by auto
      obtain ok uri1 where ph: "mongoc_uri_parse_host sz uri tok = (ok, uri1)"
        by (cases "mongoc_uri_parse_host sz uri tok")
      with parse_host_ok [of sz uri tok] have ok: "ok = spec_host_token_ok tok" by simp
      show ?thesis
      proof (cases ok)
        case False
        with None Some x ph have "mongoc_uri_parse_hosts_step sz end0 (uri, str, ret) =
            Return (False, uri1, end0)"
          by (simp add: mongoc_uri_parse_hosts_step_def)
        with False ok None Some x show ?thesis by (simp add: st loop toks)
      next
        case True
        with None Some x ph have step: "mongoc_uri_parse_hosts_step sz end0 st =
            Again (uri1, tl e, True)"
          by (simp add: st mongoc_uri_parse_hosts_step_def)
        from "1.IH" [OF step] step True ok None Some x ne show ?thesis
          by (simp add: st loop toks)
      qed
    next
      case nc: None
      show ?thesis
      proof (cases "case scan_to_unichar str CHR ''/'' of
                      Some r \<Rightarrow> Some r
                    | None \<Rightarrow> scan_to_unichar str CHR ''?''")
        case (Some x)
        obtain tok e where x: "x = (tok, e)" by (cases x)
        from Some have ne: "str \<noteq> []" by (auto split: option.splits)
        obtain ok uri1 where ph: "mongoc_uri_parse_host sz uri tok = (ok, uri1)"
          by (cases "mongoc_uri_parse_host sz uri tok")
        with parse_host_ok [of sz uri tok] have ok: "ok = spec_host_token_ok tok" by simp
        from None nc Some x ph have "mongoc_uri_parse_hosts_step sz end0 (uri, str, ret) =
            Return (ok, uri1, if ok then e else end0)"
          by (simp add: mongoc_uri_parse_hosts_step_def)
        with ok None nc Some x ne show ?thesis by (simp add: st loop toks)
      next
        case ns: None
        show ?thesis
        proof (cases "str = []")
          case True
          with None nc ns have "mongoc_uri_parse_hosts_step sz end0 (uri, str, ret) =
              Return (ret, uri, end0)"
            by (simp add: mongoc_uri_parse_hosts_step_def)
          with True show ?thesis
            by (simp add: st mongoc_uri_parse_hosts_loop.simps [of sz end0 "(uri, [], ret)"]
                  spec_host_tokens.simps [of "[]"] sock_path_def)
        next
          case False
          obtain ok uri1 where ph: "mongoc_uri_parse_host sz uri str = (ok, uri1)"
            by (cases "mongoc_uri_parse_host sz uri str")
          with parse_host_ok [of sz uri str] have ok: "ok = spec_host_token_ok str" by simp
          from False None nc ns ph have "mongoc_uri_parse_hosts_step sz end0 (uri, str, ret) =
              Return (ok, uri1, if ok then [] else end0)"
            by (simp add: mongoc_uri_parse_hosts_step_def)
          with ok False None nc ns show ?thesis by (simp add: st loop toks)
        qed
      qed
    qed
  qed
qed

lemma parse_hosts_tokens:
  "fst (mongoc_uri_parse_hosts sz uri str end0) \<longleftrightarrow>
     str \<noteq> [] \<and> (\<forall>tok \<in> set (spec_host_tokens str). spec_host_token_ok tok)"
  using hosts_loop_tokens [of sz end0 "(uri, str, False)"]
  by (auto simp: mongoc_uri_parse_hosts_def)

lemma parse_option_ok:
  "fst (mongoc_uri_parse_option uri tok) \<longleftrightarrow> scan_to_unichar tok CHR ''='' \<noteq> None"
proof (cases "scan_to_unichar tok CHR ''=''")
  case None
  then show ?thesis by (simp add: parse_option_None)
next
  case (Some x)
  obtain key e where "x = (key, e)" by (cases x)
  with Some have "scan_to_unichar tok CHR ''='' = Some (key, e)" by simp
  then have "fst (mongoc_uri_parse_option uri tok)"
    by (rule parse_option_Some_rule) simp_all
  with Some show ?thesis by simp
qed

lemma parse_option_count:
  assumes "fst (mongoc_uri_parse_option uri tok)"
  shows "length (uri_options (snd (mongoc_uri_parse_option uri tok))) +
         length (uri_read_prefs (snd (mongoc_uri_parse_option uri tok))) =
         Suc (length (uri_options uri) + length (uri_read_prefs uri))"
proof -
  from assms obtain key e where "scan_to_unichar tok CHR ''='' = Some (key, e)"
    by (auto simp: parse_option_ok)
  then show ?thesis
    by (rule parse_option_Some_rule)
       (simp_all add: mongoc_uri_parse_read_prefs_def Let_def bson_append_document_def)
qed

lemma options_loop_tokens:
  "fst (mongoc_uri_parse_options_loop st) \<longleftrightarrow>
     (\<forall>tok \<in> set (spec_option_tokens (snd st)). scan_to_unichar tok CHR ''='' \<noteq> None)"
proof (induction st rule: mongoc_uri_parse_options_loop.induct)
  case (1 st)
  obtain uri str where st: "st = (uri, str)" by (cases st)
  note loop = mongoc_uri_parse_options_loop.simps [of "(uri, str)"]
  note toks = spec_option_tokens.simps [of str]
  show ?case
  proof (cases "scan_to_unichar str CHR ''&''")
    case (Some x)
    obtain tok e where x: "x = (tok, e)" by (cases x)
    obtain ok uri1 where po: "mongoc_uri_parse_option uri tok = (ok, uri1)"
      by (cases "mongoc_uri_parse_option uri tok")
    with parse_option_ok [of uri tok] have ok: "ok \<longleftrightarrow> scan_to_unichar tok CHR ''='' \<noteq> None"
      by simp
    show ?thesis
    proof (cases ok)
      case False
      with Some x po have "mongoc_uri_parse_options_step (uri, str) = Return (False, uri1)"
        by (simp add: mongoc_uri_parse_options_step_def)
      with False ok Some x show ?thesis by (simp add: st loop toks)
    next
      case True
      with Some x po have step: "mongoc_uri_parse_options_step st = Again (uri1, tl e)"
        by (simp add: st mongoc_uri_parse_options_step_def)
      from "1.IH" [OF step] step True ok Some x show ?thesis by (simp add: st loop toks)
    qed
  next
    case None
    show ?thesis
    proof (cases "str = []")
      case True
      then show ?thesis
        by (simp add: st mongoc_uri_parse_options_loop.simps [of "(uri, [])"]
              spec_option_tokens.simps [of "[]"] mongoc_uri_parse_options_step_def)
    next
      case False
      obtain ok uri1 where po: "mongoc_uri_parse_option uri str = (ok, uri1)"
        by (cases "mongoc_uri_parse_option uri str")
      with parse_option_ok [of uri str] have ok: "ok \<longleftrightarrow> scan_to_unichar str CHR ''='' \<noteq> None"
        by simp
      from False None po have "mongoc_uri_parse_options_step (uri, str) = Return (ok, uri1)"
        by (simp add: mongoc_uri_parse_options_step_def)
      with ok False None show ?thesis by (simp add: st loop toks)
    qed
  qed
qed

lemma parse_options_tokens:
  "fst (mongoc_uri_parse_options uri str) \<longleftrightarrow>
     (\<forall>tok \<in> set (spec_option_tokens str). scan_to_unichar tok CHR ''='' \<noteq> None)"
  using options_loop_tokens [of "(uri, str)"] by (simp add: mongoc_uri_parse_options_def)

lemma spec_option_tokens_Nil [simp]: "spec_option_tokens [] = []"
  by (simp add: spec_option_tokens.simps [of "[]"])

lemma parse_switch_tokens:
  "fst (mongoc_uri_parse_switch uri str) \<longleftrightarrow>
     (\<forall>tok \<in> set (spec_option_tokens (spec_options_text str)).
        scan_to_unichar tok CHR ''='' \<noteq> None)"
proof (cases str)
  case Nil
  then show ?thesis by (simp add: mongoc_uri_parse_switch_def spec_options_text_def)
next
  case (Cons c r)
  show ?thesis
  proof (cases "c = CHR ''/''")
    case False
    with Cons show ?thesis
      by (simp add: mongoc_uri_parse_switch_def spec_options_text_def
            mongoc_uri_parse_case_question_def parse_options_tokens)
  next
    case True
    show ?thesis
    proof (cases "scan_to_unichar r CHR ''?''")
      case None
      with Cons True show ?thesis
        by (simp add: mongoc_uri_parse_switch_def spec_options_text_def
              mongoc_uri_parse_database_def)
    next
      case (Some x)
      obtain db e where x: "x = (db, e)" by (cases x)
      from Some x have "r \<noteq> []" "e \<noteq> []" by (auto dest: scan_to_unichar_split)
      with Cons True Some x show ?thesis
        by (simp add: mongoc_uri_parse_switch_def spec_options_text_def
              mongoc_uri_parse_database_def mongoc_uri_parse_case_question_def
              parse_options_tokens Let_def)
    qed
  qed
qed

lemma parse_userpass_ok:
  "fst (mongoc_uri_parse_userpass uri str end0) \<longleftrightarrow>
     (\<forall>s e. scan_to_unichar str CHR ''@'' = Some (s, e) \<longrightarrow> scan_to_unichar s CHR '':'' \<noteq> None)"
  by (auto simp: mongoc_uri_parse_userpass_def split: option.splits)

lemma parse_userpass_cursor:
  "fst (mongoc_uri_parse_userpass uri str str) \<Longrightarrow>
     snd (snd (mongoc_uri_parse_userpass uri str str)) = spec_after_userinfo str"
  by (auto simp: mongoc_uri_parse_userpass_def spec_after_userinfo_def split: option.splits)

lemma parse_host_count:
  "mongoc_uri_parse_host sz uri tok = (True, uri') \<Longrightarrow>
     length (uri_hosts uri') = Suc (length (uri_hosts uri))"
  using parse_host_result [of sz uri tok True uri'] by auto

lemma hosts_step_Again_tokens:
  "mongoc_uri_parse_hosts_step sz end0 (uri, str, ret) = Again (uri', str', ret') \<Longrightarrow>
     (\<exists>tok. spec_host_tokens str = tok # spec_host_tokens str') \<and>
     length (uri_hosts uri') = Suc (length (uri_hosts uri))"
  unfolding mongoc_uri_parse_hosts_step_def
  by (auto simp: Let_def spec_host_tokens.simps [of str] parse_host_count
        split: option.splits prod.splits if_splits)

lemma hosts_step_Return_tokens:
  "mongoc_uri_parse_hosts_step sz end0 (uri, str, ret) = Return (True, uri', e) \<Longrightarrow>
     length (uri_hosts uri') = length (uri_hosts uri) + length (spec_host_tokens str)"
  unfolding mongoc_uri_parse_hosts_step_def
  by (auto simp: Let_def spec_host_tokens.simps [of str] parse_host_count
        split: option.splits prod.splits if_splits)

lemma parse_hosts_count:
  assumes "mongoc_uri_parse_hosts sz uri str end0 = (True, uri', e)"
  shows "length (uri_hosts uri') = length (uri_hosts uri) + length (spec_host_tokens str)"
proof -
  let ?n = "length (uri_hosts uri) + length (spec_host_tokens str)"
  have "(\<lambda>(ok, u, e). ok \<longrightarrow> length (uri_hosts u) = ?n)
          (mongoc_uri_parse_hosts_loop sz end0 (uri, str, False))"
  proof (rule hosts_loop_rule
      [where I = "\<lambda>(u, s, ret). length (uri_hosts u) + length (spec_host_tokens s) = ?n"])
    show "case (uri, str, False) of
            (u, s, ret) \<Rightarrow> length (uri_hosts u) + length (spec_host_tokens s) = ?n"
      by simp
  next
    fix st st' :: "mongoc_uri_t \<times> string \<times> bool"
    assume "case st of (u, s, ret) \<Rightarrow> length (uri_hosts u) + length (spec_host_tokens s) = ?n"
      and "mongoc_uri_parse_hosts_step sz end0 st = Again st'"
    then show "case st' of
                 (u, s, ret) \<Rightarrow> length (uri_hosts u) + length (spec_host_tokens s) = ?n"
      by (cases st, cases st') (auto dest!: hosts_step_Again_tokens)
  next
    fix st :: "mongoc_uri_t \<times> string \<times> bool" and r :: "bool \<times> mongoc_uri_t \<times> string"
    assume "case st of (u, s, ret) \<Rightarrow> length (uri_hosts u) + length (spec_host_tokens s) = ?n"
      and "mongoc_uri_parse_hosts_step sz end0 st = Return r"
    then show "case r of (ok, u, e) \<Rightarrow> ok \<longrightarrow> length (uri_hosts u) = ?n"
      by (cases st, cases r) (auto dest!: hosts_step_Return_tokens)
  qed
  with assms show ?thesis by (simp add: mongoc_uri_parse_hosts_def)
qed

lemma parse_option_count':
  "mongoc_uri_parse_option uri tok = (True, uri') \<Longrightarrow>
     length (uri_options uri') + length (uri_read_prefs uri') =
     Suc (length (uri_options uri) + length (uri_read_prefs uri))"
  using parse_option_count [of uri tok] by simp

lemma options_step_Again_tokens:
  "mongoc_uri_parse_options_step (uri, str) = Again (uri', str') \<Longrightarrow>
     (\<exists>tok. spec_option_tokens str = tok # spec_option_tokens str') \<and>
     length (uri_options uri') + length (uri_read_prefs uri') =
       Suc (length (uri_options uri) + length (uri_read_prefs uri))"
  unfolding mongoc_uri_parse_options_step_def
  by (auto simp: Let_def spec_option_tokens.simps [of str]
        split: option.splits prod.splits if_splits dest: parse_option_count')

lemma options_step_Return_tokens:
  "mongoc_uri_parse_options_step (uri, str) = Return (True, uri') \<Longrightarrow>
     length (uri_options uri') + length (uri_read_prefs uri') =
       length (uri_options uri) + length (uri_read_prefs uri) + length (spec_option_tokens str)"
  unfolding mongoc_uri_parse_options_step_def
  by (auto simp: Let_def spec_option_tokens.simps [of str]
        split: option.splits prod.splits if_splits dest: parse_option_count')

lemma parse_options_count:
  assumes "mongoc_uri_parse_options uri str = (True, uri')"
  shows "length (uri_options uri') + length (uri_read_prefs uri') =
     length (uri_options uri) + length (uri_read_prefs uri) + length (spec_option_tokens str)"
proof -
  let ?n = "length (uri_options uri) + length (uri_read_prefs uri) +
            length (spec_option_tokens str)"
  let ?I = "\<lambda>(u, s). length (uri_options u) + length (uri_read_prefs u) +
              length (spec_option_tokens s) = ?n"
  have "(\<lambda>(ok, u). ok \<longrightarrow> length (uri_options u) + length (uri_read_prefs u) = ?n)
          (mongoc_uri_parse_options_loop (uri, str))"
  proof (rule options_loop_rule [where I = ?I])
    show "?I (uri, str)" by simp
  next
    fix st st' :: "mongoc_uri_t \<times> string"
    assume "?I st" and "mongoc_uri_parse_options_step st = Again st'"
    then show "?I st'"
      by (cases st, cases st') (auto dest!: options_step_Again_tokens)
  next
    fix st :: "mongoc_uri_t \<times> string" and r :: "bool \<times> mongoc_uri_t"
    assume "?I st" and "mongoc_uri_parse_options_step st = Return r"
    then show "case r of (ok, u) \<Rightarrow>
        ok \<longrightarrow> length (uri_options u) + length (uri_read_prefs u) = ?n"
      by (cases st, cases r) (auto dest!: options_step_Return_tokens)
  qed
  with assms show ?thesis by (simp add: mongoc_uri_parse_options_def)
qed

lemma parse_switch_count:
  assumes "mongoc_uri_parse_switch uri str = (True, u)"
  shows "length (uri_options u) + length (uri_read_prefs u) =
     length (uri_options uri) + length (uri_read_prefs uri) +
     length (spec_option_tokens (spec_options_text str))"
proof (cases str)
  case Nil
  with assms show ?thesis by (simp add: mongoc_uri_parse_switch_def spec_options_text_def)
next
  case (Cons c r)
  show ?thesis
  proof (cases "c = CHR ''/''")
    case False
    with Cons assms show ?thesis
      by (auto simp: mongoc_uri_parse_switch_def spec_options_text_def
            mongoc_uri_parse_case_question_def split: if_splits dest: parse_options_count)
  next
    case True
    show ?thesis
    proof (cases "scan_to_unichar r CHR ''?''")
      case None
      with Cons True assms show ?thesis
        by (auto simp: mongoc_uri_parse_switch_def spec_options_text_def
              mongoc_uri_parse_database_def split: if_splits)
    next
      case (Some x)
      obtain db e where x: "x = (db, e)" by (cases x)
      from Some x have "r \<noteq> []" "e \<noteq> []" by (auto dest: scan_to_unichar_split)
      with Cons True Some x assms show ?thesis
        by (auto simp: mongoc_uri_parse_switch_def spec_options_text_def
              mongoc_uri_parse_database_def mongoc_uri_parse_case_question_def Let_def
              split: if_splits dest: parse_options_count)
    qed
  qed
qed

lemma mongoc_uri_parse_ok:
  "fst (mongoc_uri_parse sz uri_zero s) \<longleftrightarrow>
     take 10 s = ''mongodb://'' \<and> drop 10 s \<noteq> [] \<and>
     (\<forall>u e. scan_to_unichar (drop 10 s) CHR ''@'' = Some (u, e) \<longrightarrow>
        scan_to_unichar u CHR '':'' \<noteq> None) \<and>
     spec_after_userinfo (drop 10 s) \<noteq> [] \<and>
     (\<forall>tok \<in> set (spec_host_tokens (spec_after_userinfo (drop 10 s))). spec_host_token_ok tok) \<and>
     (\<forall>tok \<in> set (spec_option_tokens (spec_options_text (cursor_after_hosts sz s))).
        scan_to_unichar tok CHR ''='' \<noteq> None)"
proof -
  let ?rest = "drop 10 s"
  obtain ok2 uri2 str2 where up: "mongoc_uri_parse_userpass uri_zero ?rest ?rest = (ok2, uri2, str2)"
    by (cases "mongoc_uri_parse_userpass uri_zero ?rest ?rest")
  obtain ok3 uri3 str3 where h: "mongoc_uri_parse_hosts sz uri2 str2 str2 = (ok3, uri3, str3)"
    by (cases "mongoc_uri_parse_hosts sz uri2 str2 str2")
  from up h have cur: "cursor_after_hosts sz s = str3"
    by (simp add: cursor_after_hosts_def)
  from up parse_userpass_ok [of uri_zero ?rest ?rest]
  have ok2: "ok2 \<longleftrightarrow> (\<forall>u e. scan_to_unichar ?rest CHR ''@'' = Some (u, e) \<longrightarrow>
      scan_to_unichar u CHR '':'' \<noteq> None)"
    by simp
  from up parse_userpass_cursor [of uri_zero ?rest]
  have str2: "ok2 \<Longrightarrow> str2 = spec_after_userinfo ?rest" by simp
  from h parse_hosts_tokens [of sz uri2 str2 str2]
  have ok3: "ok3 \<longleftrightarrow> str2 \<noteq> [] \<and> (\<forall>tok \<in> set (spec_host_tokens str2). spec_host_token_ok tok)"
    by simp
  have "fst (mongoc_uri_parse sz uri_zero s) \<longleftrightarrow>
      take 10 s = ''mongodb://'' \<and> ?rest \<noteq> [] \<and> ok2 \<and> str2 \<noteq> [] \<and> ok3 \<and>
      fst (mongoc_uri_parse_switch uri3 str3)"
    using up h by (simp add: mongoc_uri_parse_def mongoc_uri_parse_scheme_def)
  with ok2 str2 ok3 cur show ?thesis
    unfolding parse_switch_tokens by blast
qed

text \<open>Equations that evaluate the parser on a given string.\<close>

lemma tolower_if:
  "tolower c =
     (if c = CHR ''A'' then CHR ''a'' else if c = CHR ''B'' then CHR ''b''
      else if c = CHR ''C'' then CHR ''c'' else if c = CHR ''D'' then CHR ''d''
      else if c = CHR ''E'' then CHR ''e'' else if c = CHR ''F'' then CHR ''f''
      else if c = CHR ''G'' then CHR ''g'' else if c = CHR ''H'' then CHR ''h''
      else if c = CHR ''I'' then CHR ''i'' else if c = CHR ''J'' then CHR ''j''
      else if c = CHR ''K'' then CHR ''k'' else if c = CHR ''L'' then CHR ''l''
      else if c = CHR ''M'' then CHR ''m'' else if c = CHR ''N'' then CHR ''n''
      else if c = CHR ''O'' then CHR ''o'' else if c = CHR ''P'' then CHR ''p''
      else if c = CHR ''Q'' then CHR ''q'' else if c = CHR ''R'' then CHR ''r''
      else if c = CHR ''S'' then CHR ''s'' else if c = CHR ''T'' then CHR ''t''
      else if c = CHR ''U'' then CHR ''u'' else if c = CHR ''V'' then CHR ''v''
      else if c = CHR ''W'' then CHR ''w'' else if c = CHR ''X'' then CHR ''x''
      else if c = CHR ''Y'' then CHR ''y'' else if c = CHR ''Z'' then CHR ''z''
      else c)"
  by (simp add: tolower_def)

lemma strcasecmp0_literals:
  "strcasecmp0 key ''connecttimeoutms'' \<longleftrightarrow> map tolower key = ''connecttimeoutms''"
  "strcasecmp0 key ''sockettimeoutms'' \<longleftrightarrow> map tolower key = ''sockettimeoutms''"
  "strcasecmp0 key ''maxpoolsize'' \<longleftrightarrow> map tolower key = ''maxpoolsize''"
  "strcasecmp0 key ''minpoolsize'' \<longleftrightarrow> map tolower key = ''minpoolsize''"
  "strcasecmp0 key ''maxidletimems'' \<longleftrightarrow> map tolower key = ''maxidletimems''"
  "strcasecmp0 key ''waitqueuemultiple'' \<longleftrightarrow> map tolower key = ''waitqueuemultiple''"
  "strcasecmp0 key ''waitqueuetimeoutms'' \<longleftrightarrow> map tolower key = ''waitqueuetimeoutms''"
  "strcasecmp0 key ''wtimeoutms'' \<longleftrightarrow> map tolower key = ''wtimeoutms''"
  "strcasecmp0 key ''w'' \<longleftrightarrow> map tolower key = ''w''"
  "strcasecmp0 key ''journal'' \<longleftrightarrow> map tolower key = ''journal''"
  "strcasecmp0 key ''slaveok'' \<longleftrightarrow> map tolower key = ''slaveok''"
  "strcasecmp0 key ''ssl'' \<longleftrightarrow> map tolower key = ''ssl''"
  "strcasecmp0 key ''readpreferencetags'' \<longleftrightarrow> map tolower key = ''readpreferencetags''"
  unfolding strcasecmp0_def by (simp_all add: tolower_if)

lemmas parser_eval =
  mongoc_uri_new_def mongoc_uri_parse_def mongoc_uri_parse_switch_def mongoc_uri_parse_scheme_def
  mongoc_uri_parse_userpass_def mongoc_uri_parse_hosts_def mongoc_uri_parse_hosts_step_def
  mongoc_uri_parse_hosts_loop.simps
  mongoc_uri_parse_host_def mongoc_uri_append_host_def sock_path_def
  mongoc_uri_parse_database_def mongoc_uri_parse_case_question_def
  mongoc_uri_parse_options_def mongoc_uri_parse_options_step_def mongoc_uri_parse_option_def
  mongoc_uri_parse_options_loop.simps
  mongoc_uri_parse_read_prefs_def mongoc_uri_parse_read_prefs_step_def
  mongoc_uri_parse_read_prefs_loop.simps
  uri_zero_def MONGOC_DEFAULT_PORT_def isdigit_def sscanf_hu_def ULONG_MAX_def decimal_def
  digit_val_def
  strcasecmp0_literals tolower_if strtol_def isspace_def LONG_MAX_def LONG_MIN_def
  show_nat.simps
  bson_append_int32_def bson_append_bool_def bson_append_utf8_def bson_append_document_def
  bson_count_keys_def Let_def

section \<open>The claims\<close>

text \<open>
  C1: \<open>mongoc_uri_new\<close> is atomic. It returns a structure exactly when no stage fails:
  the scheme is there and text follows it, an \<open>@\<close> has a colon before it, text follows
  the userinfo, every host token is accepted and every option token has an \<open>=\<close>. Any
  one failure gives NULL, whatever the earlier stages have stored. A structure that is
  returned is the one all stages have filled: it holds the original string, one host
  for each host token, and one option or tag group for each option token.
\<close>

theorem mongoc_uri_new_atomic:
  "(mongoc_uri_new sz s \<noteq> None \<longleftrightarrow>
      take 10 s = ''mongodb://'' \<and> drop 10 s \<noteq> [] \<and>
      (\<forall>u e. scan_to_unichar (drop 10 s) CHR ''@'' = Some (u, e) \<longrightarrow>
         scan_to_unichar u CHR '':'' \<noteq> None) \<and>
      spec_after_userinfo (drop 10 s) \<noteq> [] \<and>
      (\<forall>tok \<in> set (spec_host_tokens (spec_after_userinfo (drop 10 s))).
         spec_host_token_ok tok) \<and>
      (\<forall>tok \<in> set (spec_option_tokens (spec_options_text (cursor_after_hosts sz s))).
         scan_to_unichar tok CHR ''='' \<noteq> None)) \<and>
   (\<forall>u. mongoc_uri_new sz s = Some u \<longrightarrow>
      u = (snd (mongoc_uri_parse sz uri_zero s))\<lparr> uri_str := Some s \<rparr> \<and>
      uri_str u = Some s \<and>
      uri_hosts u \<noteq> [] \<and>
      length (uri_hosts u) = length (spec_host_tokens (spec_after_userinfo (drop 10 s))) \<and>
      length (uri_options u) + length (uri_read_prefs u) =
        length (spec_option_tokens (spec_options_text (cursor_after_hosts sz s))))"
proof (intro conjI allI impI)
  have "mongoc_uri_new sz s \<noteq> None \<longleftrightarrow> fst (mongoc_uri_parse sz uri_zero s)"
    by (simp add: mongoc_uri_new_def split: prod.splits)
  then show "mongoc_uri_new sz s \<noteq> None \<longleftrightarrow>
      take 10 s = ''mongodb://'' \<and> drop 10 s \<noteq> [] \<and>
      (\<forall>u e. scan_to_unichar (drop 10 s) CHR ''@'' = Some (u, e) \<longrightarrow>
         scan_to_unichar u CHR '':'' \<noteq> None) \<and>
      spec_after_userinfo (drop 10 s) \<noteq> [] \<and>
      (\<forall>tok \<in> set (spec_host_tokens (spec_after_userinfo (drop 10 s))).
         spec_host_token_ok tok) \<and>
      (\<forall>tok \<in> set (spec_option_tokens (spec_options_text (cursor_after_hosts sz s))).
         scan_to_unichar tok CHR ''='' \<noteq> None)"
    by (simp only: mongoc_uri_parse_ok)
next
  fix u
  assume n: "mongoc_uri_new sz s = Some u"
  obtain ok u' where p: "mongoc_uri_parse sz uri_zero s = (ok, u')"
    by (cases "mongoc_uri_parse sz uri_zero s")
  with n have ok: "ok" and u: "u = u'\<lparr> uri_str := Some s \<rparr>"
    by (auto simp: mongoc_uri_new_def split: if_splits)
  from p ok obtain uri2 str2 uri3 str3 where
    up: "mongoc_uri_parse_userpass uri_zero (drop 10 s) (drop 10 s) = (True, uri2, str2)"
    and h: "mongoc_uri_parse_hosts sz uri2 str2 str2 = (True, uri3, str3)"
    and sw: "mongoc_uri_parse_switch uri3 str3 = (True, u')"
    by (auto elim: mongoc_uri_parse_True)
  from up h have cur: "cursor_after_hosts sz s = str3"
    by (simp add: cursor_after_hosts_def)
  from up parse_userpass_cursor [of uri_zero "drop 10 s"]
  have str2: "str2 = spec_after_userinfo (drop 10 s)" by simp
  from parse_userpass_same [OF up]
  have z2: "uri_hosts uri2 = [] \<and> uri_options uri2 = [] \<and> uri_read_prefs uri2 = []"
    by (simp add: same_but_userpass_def uri_zero_def)
  with parse_hosts_result [OF h]
  have z3: "uri_options uri3 = [] \<and> uri_read_prefs uri3 = []"
    by (simp add: same_but_hosts_def)
  from parse_hosts_count [OF h] z2 str2
  have n3: "length (uri_hosts uri3) = length (spec_host_tokens (spec_after_userinfo (drop 10 s)))"
    by simp
  from parse_hosts_result [OF h] have ne3: "uri_hosts uri3 \<noteq> []" by simp
  note same = parse_switch_same [OF sw]
  from p u show "u = (snd (mongoc_uri_parse sz uri_zero s))\<lparr> uri_str := Some s \<rparr>" by simp
  from u show "uri_str u = Some s" by simp
  from ne3 same u show "uri_hosts u \<noteq> []" by simp
  from n3 same u
  show "length (uri_hosts u) = length (spec_host_tokens (spec_after_userinfo (drop 10 s)))"
    by simp
  from parse_switch_count [OF sw] z3 cur u
  show "length (uri_options u) + length (uri_read_prefs u) =
      length (spec_option_tokens (spec_options_text (cursor_after_hosts sz s)))"
    by simp
qed

theorem mongoc_uri_new_atomic_witness:
  "mongoc_uri_new \<lparr> sizeof_host = 256, sizeof_host_and_port = 262 \<rparr>
     ''mongodb://h/?a=1&novalue'' = None \<and>
   uri_options (snd (mongoc_uri_parse \<lparr> sizeof_host = 256, sizeof_host_and_port = 262 \<rparr>
      uri_zero ''mongodb://h/?a=1&novalue'')) = [(''a'', BSON_UTF8 ''1'')] \<and>
   mongoc_uri_new \<lparr> sizeof_host = 256, sizeof_host_and_port = 262 \<rparr>
     ''mongodb://u:p@h:abc'' = None \<and>
   uri_username (snd (mongoc_uri_parse \<lparr> sizeof_host = 256, sizeof_host_and_port = 262 \<rparr>
      uri_zero ''mongodb://u:p@h:abc'')) = Some ''u'' \<and>
   map_option uri_str
     (mongoc_uri_new \<lparr> sizeof_host = 256, sizeof_host_and_port = 262 \<rparr> ''mongodb://h/?a=1'') =
   Some (Some ''mongodb://h/?a=1'')"
proof -
  let ?sz = "\<lparr> sizeof_host = 256, sizeof_host_and_port = 262 \<rparr>"
  have c1: "cursor_after_hosts ?sz ''mongodb://h/?a=1&novalue'' = ''/?a=1&novalue''"
    by (simp add: cursor_after_hosts_def parser_eval)
  have t1: "spec_option_tokens ''a=1&novalue'' = [''a=1'', ''novalue'']"
    by (simp add: spec_option_tokens.simps)
  have "\<not> (\<forall>tok \<in> set (spec_option_tokens (spec_options_text
      (cursor_after_hosts ?sz ''mongodb://h/?a=1&novalue''))).
      scan_to_unichar tok CHR ''='' \<noteq> None)"
    by (simp add: c1 t1 spec_options_text_def)
  with mongoc_uri_new_atomic [of ?sz "''mongodb://h/?a=1&novalue''"]
  have a: "mongoc_uri_new ?sz ''mongodb://h/?a=1&novalue'' = None" by blast
  have "\<not> (\<forall>tok \<in> set (spec_host_tokens (spec_after_userinfo (drop 10 ''mongodb://u:p@h:abc''))).
      spec_host_token_ok tok)"
    by (simp add: spec_after_userinfo_def spec_host_tokens.simps spec_host_token_ok_def
          sock_path_def isdigit_def)
  with mongoc_uri_new_atomic [of ?sz "''mongodb://u:p@h:abc''"]
  have b: "mongoc_uri_new ?sz ''mongodb://u:p@h:abc'' = None" by blast
  have "\<exists>u. mongoc_uri_new ?sz ''mongodb://h/?a=1'' = Some u"
    by (simp add: parser_eval)
  then obtain u where u: "mongoc_uri_new ?sz ''mongodb://h/?a=1'' = Some u" ..
  with mongoc_uri_new_atomic [of ?sz "''mongodb://h/?a=1''"]
  have "uri_str u = Some ''mongodb://h/?a=1''" by blast
  with u have c: "map_option uri_str (mongoc_uri_new ?sz ''mongodb://h/?a=1'') =
      Some (Some ''mongodb://h/?a=1'')"
    by simp
  have d: "uri_options (snd (mongoc_uri_parse ?sz uri_zero ''mongodb://h/?a=1&novalue'')) =
      [(''a'', BSON_UTF8 ''1'')]"
    by (simp add: parser_eval)
  have e: "uri_username (snd (mongoc_uri_parse ?sz uri_zero ''mongodb://u:p@h:abc'')) = Some ''u''"
    by (simp add: parser_eval)
  from a b c d e show ?thesis by simp
qed

text \<open>
  C2: when \<open>mongoc_uri_new\<close> succeeds, the host list of the result is not empty.
\<close>

theorem mongoc_uri_new_hosts_nonempty:
  "mongoc_uri_new sz s = Some u \<Longrightarrow> uri_hosts u \<noteq> []"
proof -
  assume a: "mongoc_uri_new sz s = Some u"
  obtain ok u' where p: "mongoc_uri_parse sz uri_zero s = (ok, u')"
    by (cases "mongoc_uri_parse sz uri_zero s")
  with a have "ok" and u: "u = u'\<lparr> uri_str := Some s \<rparr>"
    by (auto simp: mongoc_uri_new_def split: if_splits)
  with p have "uri_hosts u' \<noteq> []" by (simp add: mongoc_uri_parse_hosts_nonempty)
  with u show ?thesis by simp
qed

theorem mongoc_uri_new_hosts_nonempty_witness:
  "mongoc_uri_new \<lparr> sizeof_host = 256, sizeof_host_and_port = 262 \<rparr> ''mongodb://h'' \<noteq> None \<and>
   uri_hosts (the (mongoc_uri_new \<lparr> sizeof_host = 256, sizeof_host_and_port = 262 \<rparr>
     ''mongodb://h'')) \<noteq> []"
proof -
  let ?sz = "\<lparr> sizeof_host = 256, sizeof_host_and_port = 262 \<rparr>"
  have "\<exists>u. mongoc_uri_new ?sz ''mongodb://h'' = Some u"
    by (simp add: parser_eval)
  then obtain u where u: "mongoc_uri_new ?sz ''mongodb://h'' = Some u" ..
  from mongoc_uri_new_hosts_nonempty [OF u] u show ?thesis by simp
qed

text \<open>
  C7: when the scanner finds an \<open>@\<close> in the text after the scheme, the text before it
  is split at the first \<open>:\<close> the scanner finds. Without one the userinfo stage fails and
  \<open>mongoc_uri_new\<close> returns NULL; with one the text before the \<open>:\<close> is stored as the
  username and the text between the \<open>:\<close> and the \<open>@\<close> as the password, the cursor
  moves past the \<open>@\<close>, and a parse that succeeds returns them.
\<close>

theorem userpass_needs_colon:
  assumes "scan_to_unichar rest CHR ''@'' = Some (s, e)"
  shows "(scan_to_unichar s CHR '':'' = None \<longrightarrow>
            \<not> fst (mongoc_uri_parse_userpass uri rest rest) \<and>
            mongoc_uri_new sz (''mongodb://'' @ rest) = None) \<and>
         (\<forall>user e2. scan_to_unichar s CHR '':'' = Some (user, e2) \<longrightarrow>
            rest = user @ '':'' @ tl e2 @ ''@'' @ tl e \<and>
            mongoc_uri_parse_userpass uri rest rest =
              (True, uri\<lparr> uri_username := Some user, uri_password := Some (tl e2) \<rparr>, tl e) \<and>
            (\<forall>u. mongoc_uri_new sz (''mongodb://'' @ rest) = Some u \<longrightarrow>
               uri_username u = Some user \<and> uri_password u = Some (tl e2)))"
proof -
  have none: "\<not> fst (mongoc_uri_parse_userpass uri rest rest) \<and>
      mongoc_uri_new sz (''mongodb://'' @ rest) = None"
    if n: "scan_to_unichar s CHR '':'' = None"
  proof -
    from assms have "rest \<noteq> []" by auto
    with assms n show ?thesis
      by (simp add: mongoc_uri_new_def mongoc_uri_parse_def mongoc_uri_parse_scheme_def
            mongoc_uri_parse_userpass_def)
  qed
  have some: "rest = user @ '':'' @ tl e2 @ ''@'' @ tl e \<and>
      mongoc_uri_parse_userpass uri rest rest =
        (True, uri\<lparr> uri_username := Some user, uri_password := Some (tl e2) \<rparr>, tl e) \<and>
      (\<forall>u. mongoc_uri_new sz (''mongodb://'' @ rest) = Some u \<longrightarrow>
         uri_username u = Some user \<and> uri_password u = Some (tl e2))"
    if c: "scan_to_unichar s CHR '':'' = Some (user, e2)" for user e2
  proof (intro conjI allI impI)
  from scan_to_unichar_split [OF assms] obtain e' where "rest = s @ e" "e = CHR ''@'' # e'"
    by (cases e) auto
  moreover from scan_to_unichar_split [OF c] obtain e2' where "s = user @ e2" "e2 = CHR '':'' # e2'"
    by (cases e2) auto
  ultimately show "rest = user @ '':'' @ tl e2 @ ''@'' @ tl e" by simp
next
  from c assms show "mongoc_uri_parse_userpass uri rest rest =
      (True, uri\<lparr> uri_username := Some user, uri_password := Some (tl e2) \<rparr>, tl e)"
    by (simp add: mongoc_uri_parse_userpass_def)
next
  fix u
  assume n: "mongoc_uri_new sz (''mongodb://'' @ rest) = Some u"
  obtain ok u' where p: "mongoc_uri_parse sz uri_zero (''mongodb://'' @ rest) = (ok, u')"
    by (cases "mongoc_uri_parse sz uri_zero (''mongodb://'' @ rest)")
  with n have ok: "ok" and u: "u = u'\<lparr> uri_str := Some (''mongodb://'' @ rest) \<rparr>"
    by (auto simp: mongoc_uri_new_def split: if_splits)
  from p ok obtain uri2 str2 uri3 str3 where
    up: "mongoc_uri_parse_userpass uri_zero (drop 10 (''mongodb://'' @ rest))
           (drop 10 (''mongodb://'' @ rest)) = (True, uri2, str2)"
    and h: "mongoc_uri_parse_hosts sz uri2 str2 str2 = (True, uri3, str3)"
    and sw: "mongoc_uri_parse_switch uri3 str3 = (True, u')"
    by (auto elim: mongoc_uri_parse_True)
  from up assms c have "uri_username uri2 = Some user \<and> uri_password uri2 = Some (tl e2)"
    by (auto simp: mongoc_uri_parse_userpass_def)
  with parse_hosts_result [OF h]
  have "uri_username uri3 = Some user \<and> uri_password uri3 = Some (tl e2)"
    by (simp add: same_but_hosts_def)
  with parse_switch_same [OF sw] u
  show "uri_username u = Some user" and "uri_password u = Some (tl e2)" by simp_all
  qed
  from none some show ?thesis by blast
qed

theorem userpass_needs_colon_witness:
  "mongoc_uri_new \<lparr> sizeof_host = 256, sizeof_host_and_port = 262 \<rparr> ''mongodb://u@h'' = None \<and>
   mongoc_uri_parse_userpass uri_zero ''u:p@h'' ''u:p@h'' =
     (True, uri_zero\<lparr> uri_username := Some ''u'', uri_password := Some ''p'' \<rparr>, ''h'')"
proof -
  have a: "scan_to_unichar ''u@h'' CHR ''@'' = Some (''u'', ''@h'')" by simp
  have b: "scan_to_unichar ''u'' CHR '':'' = None" by simp
  have c: "scan_to_unichar ''u:p@h'' CHR ''@'' = Some (''u:p'', ''@h'')" by simp
  have d: "scan_to_unichar ''u:p'' CHR '':'' = Some (''u'', '':p'')" by simp
  from userpass_needs_colon [OF a, of uri_zero "\<lparr> sizeof_host = 256, sizeof_host_and_port = 262 \<rparr>"] b
  have "mongoc_uri_new \<lparr> sizeof_host = 256, sizeof_host_and_port = 262 \<rparr> ''mongodb://u@h'' = None"
    by simp
  moreover from userpass_needs_colon [OF c, of uri_zero] d
  have "mongoc_uri_parse_userpass uri_zero ''u:p@h'' ''u:p@h'' =
     (True, uri_zero\<lparr> uri_username := Some ''u'', uri_password := Some ''p'' \<rparr>, ''h'')"
    by simp
  ultimately show ?thesis by simp
qed

lemma parse_switch_database:
  assumes "mongoc_uri_parse_switch uri str = (True, u)"
  shows "uri_database u =
     (case str of
        [] \<Rightarrow> uri_database uri
      | c # r \<Rightarrow>
          if c = CHR ''/'' then
            (case r of
               [] \<Rightarrow> uri_database uri
             | d # r' \<Rightarrow>
                 (case scan_to_unichar r CHR ''?'' of
                    Some (db, e) \<Rightarrow> Some db
                  | None \<Rightarrow> Some r))
          else uri_database uri)"
proof (cases str)
  case Nil
  with assms show ?thesis by (simp add: mongoc_uri_parse_switch_def)
next
  case (Cons c r)
  show ?thesis
  proof (cases "c = CHR ''/''")
    case False
    with assms Cons have "u = uri \<or> mongoc_uri_parse_case_question uri str = (True, u)"
      by (auto simp: mongoc_uri_parse_switch_def split: if_splits)
    then have "uri_database u = uri_database uri"
      by (auto dest: case_question_same simp: same_but_options_def)
    with Cons False show ?thesis by simp
  next
    case True
    show ?thesis
    proof (cases "r = []")
      case True
      with assms Cons \<open>c = CHR ''/''\<close> show ?thesis
        by (simp add: mongoc_uri_parse_switch_def)
    next
      case r: False
      obtain uri1 str2 where d: "mongoc_uri_parse_database uri r r = (True, uri1, str2)"
        using parse_database_result [of uri r r] by (cases "mongoc_uri_parse_database uri r r") auto
      have db: "uri_database uri1 =
          (case scan_to_unichar r CHR ''?'' of Some (db, e) \<Rightarrow> Some db | None \<Rightarrow> Some r)"
        using d r by (auto simp: mongoc_uri_parse_database_def split: option.splits)
      from assms Cons True r d
      have "u = uri1 \<or> mongoc_uri_parse_case_question uri1 str2 = (True, u)"
        by (auto simp: mongoc_uri_parse_switch_def split: if_splits)
      then have "uri_database u = uri_database uri1"
        by (auto dest: case_question_same simp: same_but_options_def)
      with db Cons True r show ?thesis
        by (simp add: list.case_eq_if split: option.splits)
    qed
  qed
qed

lemma mongoc_uri_new_database:
  assumes "mongoc_uri_new sz s = Some u"
  shows "uri_database u =
     (case cursor_after_hosts sz s of
        [] \<Rightarrow> None
      | c # r \<Rightarrow>
          if c = CHR ''/'' then
            (case r of
               [] \<Rightarrow> None
             | d # r' \<Rightarrow>
                 (case scan_to_unichar r CHR ''?'' of
                    Some (db, e) \<Rightarrow> Some db
                  | None \<Rightarrow> Some r))
          else None)"
proof -
  obtain ok u' where p: "mongoc_uri_parse sz uri_zero s = (ok, u')"
    by (cases "mongoc_uri_parse sz uri_zero s")
  with assms have ok: "ok" and u: "u = u'\<lparr> uri_str := Some s \<rparr>"
    by (auto simp: mongoc_uri_new_def split: if_splits)
  from p ok obtain uri2 str2 uri3 str3 where
    up: "mongoc_uri_parse_userpass uri_zero (drop 10 s) (drop 10 s) = (True, uri2, str2)"
    and h: "mongoc_uri_parse_hosts sz uri2 str2 str2 = (True, uri3, str3)"
    and sw: "mongoc_uri_parse_switch uri3 str3 = (True, u')"
    by (auto elim: mongoc_uri_parse_True)
  from up h have cur: "cursor_after_hosts sz s = str3"
    by (simp add: cursor_after_hosts_def)
  from parse_userpass_same [OF up] have "uri_database uri2 = None"
    by (simp add: same_but_userpass_def uri_zero_def)
  with parse_hosts_result [OF h] have "uri_database uri3 = None"
    by (simp add: same_but_hosts_def)
  with parse_switch_database [OF sw] cur u show ?thesis
    by (simp split: list.splits)
qed

text \<open>
  C4, as the code has it: the database is set only when the cursor that the host-list
  stage has left is at a \<open>/\<close>, and then exactly when a character follows that \<open>/\<close>: it
  is the text after the \<open>/\<close> up to the next \<open>?\<close> the scanner finds, or to the end. So
  a cursor at a \<open>/\<close> that ends the string leaves the database NULL, and a cursor at
  \<open>/?\<close> sets the database to the empty string, not to NULL.
\<close>

theorem database_after_slash:
  assumes "mongoc_uri_new sz s = Some u"
  shows "uri_database u =
           (case cursor_after_hosts sz s of
              [] \<Rightarrow> None
            | c # r \<Rightarrow>
                if c = CHR ''/'' \<and> r \<noteq> [] then Some (spec_database_text r) else None) \<and>
         (cursor_after_hosts sz s = ''/'' \<longrightarrow> uri_database u = None) \<and>
         (\<forall>r. cursor_after_hosts sz s = ''/?'' @ r \<longrightarrow> uri_database u = Some [])"
proof -
  note db = mongoc_uri_new_database [OF assms]
  have eq: "uri_database u =
      (case cursor_after_hosts sz s of
         [] \<Rightarrow> None
       | c # r \<Rightarrow>
           if c = CHR ''/'' \<and> r \<noteq> [] then Some (spec_database_text r) else None)"
    using db
    by (simp add: spec_database_text_def list.case_eq_if split: option.splits)
  have b: "uri_database u = None" if "cursor_after_hosts sz s = ''/''"
    using that eq by simp
  have c: "uri_database u = Some []" if "cursor_after_hosts sz s = ''/?'' @ r" for r
    using that eq by (simp add: spec_database_text_def)
  from eq b c show ?thesis by blast
qed

theorem database_after_slash_witness:
  "cursor_after_hosts \<lparr> sizeof_host = 256, sizeof_host_and_port = 262 \<rparr> ''mongodb://h/?ssl=true''
     = ''/?ssl=true'' \<and>
   map_option uri_database
     (mongoc_uri_new \<lparr> sizeof_host = 256, sizeof_host_and_port = 262 \<rparr> ''mongodb://h/?ssl=true'')
     = Some (Some []) \<and>
   cursor_after_hosts \<lparr> sizeof_host = 256, sizeof_host_and_port = 262 \<rparr> ''mongodb://h/'' = ''/'' \<and>
   map_option uri_database
     (mongoc_uri_new \<lparr> sizeof_host = 256, sizeof_host_and_port = 262 \<rparr> ''mongodb://h/'')
     = Some None \<and>
   cursor_after_hosts \<lparr> sizeof_host = 256, sizeof_host_and_port = 262 \<rparr> ''mongodb://h/db?ssl=true''
     = ''/db?ssl=true'' \<and>
   map_option uri_database
     (mongoc_uri_new \<lparr> sizeof_host = 256, sizeof_host_and_port = 262 \<rparr> ''mongodb://h/db?ssl=true'')
     = Some (Some ''db'')"
proof -
  let ?sz = "\<lparr> sizeof_host = 256, sizeof_host_and_port = 262 \<rparr>"
  have c1: "cursor_after_hosts ?sz ''mongodb://h/?ssl=true'' = ''/?'' @ ''ssl=true''"
    by (simp add: cursor_after_hosts_def parser_eval)
  have "\<exists>u. mongoc_uri_new ?sz ''mongodb://h/?ssl=true'' = Some u"
    by (simp add: parser_eval)
  then obtain u1 where u1: "mongoc_uri_new ?sz ''mongodb://h/?ssl=true'' = Some u1" ..
  from database_after_slash [OF u1] c1 have d1: "uri_database u1 = Some []" by blast
  have c2: "cursor_after_hosts ?sz ''mongodb://h/'' = ''/''"
    by (simp add: cursor_after_hosts_def parser_eval)
  have "\<exists>u. mongoc_uri_new ?sz ''mongodb://h/'' = Some u"
    by (simp add: parser_eval)
  then obtain u2 where u2: "mongoc_uri_new ?sz ''mongodb://h/'' = Some u2" ..
  from database_after_slash [OF u2] c2 have d2: "uri_database u2 = None" by blast
  have c3: "cursor_after_hosts ?sz ''mongodb://h/db?ssl=true'' = ''/db?ssl=true''"
    by (simp add: cursor_after_hosts_def parser_eval)
  have "\<exists>u. mongoc_uri_new ?sz ''mongodb://h/db?ssl=true'' = Some u"
    by (simp add: parser_eval)
  then obtain u3 where u3: "mongoc_uri_new ?sz ''mongodb://h/db?ssl=true'' = Some u3" ..
  from database_after_slash [OF u3] have "uri_database u3 =
      (case cursor_after_hosts ?sz ''mongodb://h/db?ssl=true'' of
         [] \<Rightarrow> None
       | c # r \<Rightarrow>
           if c = CHR ''/'' \<and> r \<noteq> [] then Some (spec_database_text r) else None)"
    by blast
  then have d3: "uri_database u3 = Some ''db''"
    by (simp add: c3 spec_database_text_def)
  from u1 d1 c1 u2 d2 c2 u3 d3 c3 show ?thesis by simp
qed

theorem database_empty_counterexample:
  "map_option uri_database
     (mongoc_uri_new \<lparr> sizeof_host = 256, sizeof_host_and_port = 262 \<rparr> ''mongodb://h/?ssl=true'')
   = Some (Some []) \<and>
   map_option uri_database
     (mongoc_uri_new \<lparr> sizeof_host = 256, sizeof_host_and_port = 262 \<rparr> ''mongodb://h/?ssl=true'')
   \<noteq> Some None"
  by (simp add: parser_eval)

text \<open>
  C3: for \<open>mongodb:///tmp/x.sock/db\<close> the host-list stage returns TRUE with \<open>*end\<close> still
  at the start of the host list, since the return after a socket path does not store
  the advanced cursor; the database stage then reads \<open>tmp/x.sock/db\<close>, not \<open>db\<close>.
\<close>

theorem sock_path_leaves_end:
  "snd (snd (mongoc_uri_parse_hosts sz uri ''/tmp/x.sock/db'' ''/tmp/x.sock/db''))
     = ''/tmp/x.sock/db'' \<and>
   fst (mongoc_uri_parse_hosts sz uri ''/tmp/x.sock/db'' ''/tmp/x.sock/db'') \<and>
   map_option uri_database (mongoc_uri_new sz ''mongodb:///tmp/x.sock/db'')
     = Some (Some ''tmp/x.sock/db'')"
  by (simp add: parser_eval)

text \<open>
  C6: \<open>mongodb://a,b:27018,/tmp/x.sock,c/\<close> gives four hosts in the order of the string,
  provided the \<open>host\<close> array of \<open>mongoc_host_list_t\<close> has room for the 11 characters of
  the socket path and the NUL.
\<close>

theorem four_hosts_in_order:
  assumes "12 \<le> sizeof_host sz"
  shows "map_option (map host_entry \<circ> uri_hosts)
           (mongoc_uri_new sz ''mongodb://a,b:27018,/tmp/x.sock,c/'') =
         Some [(''a'', 27017, AF_INET), (''b'', 27018, AF_INET),
               (''/tmp/x.sock'', 27017, AF_UNIX), (''c'', 27017, AF_INET)]"
  using assms by (simp add: parser_eval host_entry_def)

theorem four_hosts_in_order_witness:
  "map_option (map host_entry \<circ> uri_hosts)
     (mongoc_uri_new \<lparr> sizeof_host = 256, sizeof_host_and_port = 262 \<rparr>
        ''mongodb://a,b:27018,/tmp/x.sock,c/'') =
   Some [(''a'', 27017, AF_INET), (''b'', 27018, AF_INET),
         (''/tmp/x.sock'', 27017, AF_UNIX), (''c'', 27017, AF_INET)]"
  using four_hosts_in_order [of "\<lparr> sizeof_host = 256, sizeof_host_and_port = 262 \<rparr>"]
  by simp

text \<open>
  C10: an empty host token is accepted. The scanner returns the empty copy when the stop
  character is the first character, \<open>mongoc_uri_parse_host\<close> appends the empty host
  name with port 27017 and family \<open>AF_INET\<close>, and \<open>mongodb:///\<close> and \<open>mongodb://,h\<close>
  both parse.
\<close>

theorem empty_host_token_accepted:
  "scan_to_unichar (stop # rest) stop = Some ([], stop # rest) \<and>
   mongoc_uri_parse_host sz uri [] =
     (True, uri\<lparr> uri_hosts := uri_hosts uri @
        [\<lparr> hl_host = [], hl_host_and_port = take (sizeof_host_and_port sz - 1) '':27017'',
           hl_port = 27017, hl_family = AF_INET \<rparr>] \<rparr>) \<and>
   map_option (map host_entry \<circ> uri_hosts) (mongoc_uri_new sz ''mongodb:///'') =
     Some [([], 27017, AF_INET)] \<and>
   (2 \<le> sizeof_host sz \<longrightarrow>
      map_option (map host_entry \<circ> uri_hosts) (mongoc_uri_new sz ''mongodb://,h'') =
        Some [([], 27017, AF_INET), (''h'', 27017, AF_INET)])"
  by (simp add: parser_eval host_entry_def)

theorem empty_host_token_accepted_witness:
  "map_option (map host_entry \<circ> uri_hosts)
     (mongoc_uri_new \<lparr> sizeof_host = 256, sizeof_host_and_port = 262 \<rparr> ''mongodb://,h'') =
   Some [([], 27017, AF_INET), (''h'', 27017, AF_INET)]"
  using empty_host_token_accepted [of "CHR '',''" "''h''"
      "\<lparr> sizeof_host = 256, sizeof_host_and_port = 262 \<rparr>" uri_zero]
  by simp

lemma tags_key_excludes:
  assumes "strcasecmp0 key ''readpreferencetags''"
  shows "\<not> strcasecmp0 key ''connecttimeoutms''"
    "\<not> strcasecmp0 key ''sockettimeoutms''"
    "\<not> strcasecmp0 key ''maxpoolsize''"
    "\<not> strcasecmp0 key ''minpoolsize''"
    "\<not> strcasecmp0 key ''maxidletimems''"
    "\<not> strcasecmp0 key ''waitqueuemultiple''"
    "\<not> strcasecmp0 key ''waitqueuetimeoutms''"
    "\<not> strcasecmp0 key ''wtimeoutms''"
    "\<not> strcasecmp0 key ''w''"
    "\<not> strcasecmp0 key ''journal''"
    "\<not> strcasecmp0 key ''slaveok''"
    "\<not> strcasecmp0 key ''ssl''"
  using assms by (simp_all add: strcasecmp0_literals)

lemma parse_option_tags:
  assumes "scan_to_unichar tok CHR ''='' = Some (key, e)"
    and "strcasecmp0 key ''readpreferencetags''"
  shows "mongoc_uri_parse_option uri tok = (True, mongoc_uri_parse_read_prefs uri (tl e))"
  using assms tags_key_excludes [OF assms(2)] by (simp add: mongoc_uri_parse_option_def)

lemma parse_option_appends:
  assumes "scan_to_unichar tok CHR ''='' = Some (key, e)"
    and "\<not> strcasecmp0 key ''readpreferencetags''"
  shows "\<exists>v. mongoc_uri_parse_option uri tok =
           (True, uri\<lparr> uri_options := uri_options uri @ [(key, v)] \<rparr>)"
proof (rule parse_option_Some_rule [OF assms(1)])
  assume "strcasecmp0 key ''readpreferencetags''"
  with assms(2) show "\<exists>v. (True, mongoc_uri_parse_read_prefs uri (tl e)) =
           (True, uri\<lparr> uri_options := uri_options uri @ [(key, v)] \<rparr>)"
    by simp
next
  fix v
  show "\<exists>v'. (True, uri\<lparr> uri_options := uri_options uri @ [(key, v)] \<rparr>) =
           (True, uri\<lparr> uri_options := uri_options uri @ [(key, v')] \<rparr>)"
    by (rule exI [of _ v]) simp
qed

text \<open>
  C5: the options are an ordered multimap. An option token whose key is not
  \<open>readpreferencetags\<close> is accepted and adds one entry, under the key as typed, at the
  end of \<open>options\<close>; the option-list stage only ever extends \<open>options\<close>, so an earlier
  entry with the same key stays; and \<open>mongodb://h/?w=majority&w=3\<close> gives the two
  entries for \<open>w\<close> in that order.
\<close>

theorem options_append_only:
  "(scan_to_unichar tok CHR ''='' = Some (key, e) \<and> \<not> strcasecmp0 key ''readpreferencetags'' \<longrightarrow>
      (\<exists>v. mongoc_uri_parse_option uri tok =
         (True, uri\<lparr> uri_options := uri_options uri @ [(key, v)] \<rparr>))) \<and>
   (\<exists>new. uri_options (snd (mongoc_uri_parse_options uri str)) = uri_options uri @ new) \<and>
   map_option uri_options (mongoc_uri_new sz ''mongodb://h/?w=majority&w=3'') =
     Some [(''w'', BSON_UTF8 ''majority''), (''w'', BSON_INT32 3)]"
proof (intro conjI)
  show "scan_to_unichar tok CHR ''='' = Some (key, e) \<and> \<not> strcasecmp0 key ''readpreferencetags'' \<longrightarrow>
      (\<exists>v. mongoc_uri_parse_option uri tok =
         (True, uri\<lparr> uri_options := uri_options uri @ [(key, v)] \<rparr>))"
    using parse_option_appends [of tok key e uri] by blast
next
  show "\<exists>new. uri_options (snd (mongoc_uri_parse_options uri str)) = uri_options uri @ new"
    using parse_options_same [of uri str] by (simp add: same_but_options_def)
next
  show "map_option uri_options (mongoc_uri_new sz ''mongodb://h/?w=majority&w=3'') =
     Some [(''w'', BSON_UTF8 ''majority''), (''w'', BSON_INT32 3)]"
    by (simp add: parser_eval)
qed

theorem options_append_only_witness:
  "mongoc_uri_parse_option (uri_zero\<lparr> uri_options := [(''W'', BSON_UTF8 ''majority'')] \<rparr>) ''W=3'' =
     (True, uri_zero\<lparr> uri_options := [(''W'', BSON_UTF8 ''majority''), (''W'', BSON_INT32 3)] \<rparr>)"
proof -
  have a: "scan_to_unichar ''W=3'' CHR ''='' = Some (''W'', ''=3'')" by simp
  have b: "\<not> strcasecmp0 ''W'' ''readpreferencetags''"
    by (simp add: strcasecmp0_literals tolower_if)
  from options_append_only
    [of "''W=3''" "''W''" "''=3''" "uri_zero\<lparr> uri_options := [(''W'', BSON_UTF8 ''majority'')] \<rparr>"] a b
  obtain v where "mongoc_uri_parse_option
      (uri_zero\<lparr> uri_options := [(''W'', BSON_UTF8 ''majority'')] \<rparr>) ''W=3'' =
     (True, uri_zero\<lparr> uri_options := [(''W'', BSON_UTF8 ''majority''), (''W'', v)] \<rparr>)"
    by auto
  moreover have "snd (mongoc_uri_parse_option
      (uri_zero\<lparr> uri_options := [(''W'', BSON_UTF8 ''majority'')] \<rparr>) ''W=3'') =
      uri_zero\<lparr> uri_options := [(''W'', BSON_UTF8 ''majority''), (''W'', BSON_INT32 3)] \<rparr>"
    by (simp add: parser_eval)
  ultimately show ?thesis by simp
qed

lemma read_prefs_loop_spec:
  "mongoc_uri_parse_read_prefs_loop st = fst st @ spec_tag_group (snd st)"
proof (induction st rule: mongoc_uri_parse_read_prefs_loop.induct)
  case (1 st)
  obtain b str where st: "st = (b, str)" by (cases st)
  show ?case
  proof (cases "scan_to_unichar str CHR '',''")
    case None
    then have "mongoc_uri_parse_read_prefs_step st = Return (b @ spec_tag_pairs str)"
      by (simp add: st mongoc_uri_parse_read_prefs_step_def spec_tag_pairs_def
            bson_append_utf8_def split: option.splits)
    moreover from None have "spec_tag_group str = spec_tag_pairs str"
      by (simp add: spec_tag_group_def spec_split_unescaped.simps [of _ str])
    ultimately show ?thesis
      by (simp add: st mongoc_uri_parse_read_prefs_loop.simps [of "(b, str)"])
  next
    case (Some r)
    obtain keyval e where r: "r = (keyval, e)" by (cases r)
    from Some r have step: "mongoc_uri_parse_read_prefs_step st =
        Again (b @ spec_tag_pairs keyval, tl e)"
      by (simp add: st mongoc_uri_parse_read_prefs_step_def spec_tag_pairs_def
            bson_append_utf8_def split: option.splits)
    from Some r have "spec_tag_group str = spec_tag_pairs keyval @ spec_tag_group (tl e)"
      by (simp add: spec_tag_group_def spec_split_unescaped.simps [of _ str])
    with "1.IH" [OF step] step [unfolded st] show ?thesis
      by (simp add: st mongoc_uri_parse_read_prefs_loop.simps [of "(b, str)"])
  qed
qed

text \<open>
  At the option stage an option token whose key is \<open>readpreferencetags\<close>, whatever the
  case of its letters, is accepted whatever its value is, and adds one document to
  \<open>read_prefs\<close>, under the next index as key: the pairs of the comma-separated tokens of
  the value in which the scanner finds a colon, in order. Tokens with no colon add
  nothing.
\<close>

theorem read_preference_tags_group:
  assumes "scan_to_unichar tok CHR ''='' = Some (key, e)"
    and "strcasecmp0 key ''readpreferencetags''"
  shows "mongoc_uri_parse_option uri tok =
     (True, uri\<lparr> uri_read_prefs := uri_read_prefs uri @
        [(show_nat (length (uri_read_prefs uri)), BSON_DOCUMENT (spec_tag_group (tl e)))] \<rparr>)"
  using parse_option_tags [OF assms, of uri]
  by (simp add: mongoc_uri_parse_read_prefs_def read_prefs_loop_spec Let_def
        bson_append_document_def bson_count_keys_def)

theorem read_preference_tags_group_witness:
  "mongoc_uri_parse_option uri_zero ''readPreferenceTags=dc:ny,bad,rack:1'' =
     (True, uri_zero\<lparr> uri_read_prefs :=
        [(''0'', BSON_DOCUMENT [(''dc'', BSON_UTF8 ''ny''), (''rack'', BSON_UTF8 ''1'')])] \<rparr>) \<and>
   map_option uri_read_prefs
     (mongoc_uri_new \<lparr> sizeof_host = 256, sizeof_host_and_port = 262 \<rparr>
        ''mongodb://h/?readpreferencetags=dc:ny&readpreferencetags=bad'') =
   Some [(''0'', BSON_DOCUMENT [(''dc'', BSON_UTF8 ''ny'')]), (''1'', BSON_DOCUMENT [])]"
proof -
  have a: "scan_to_unichar ''readPreferenceTags=dc:ny,bad,rack:1'' CHR ''='' =
      Some (''readPreferenceTags'', ''=dc:ny,bad,rack:1'')"
    by simp
  have b: "strcasecmp0 ''readPreferenceTags'' ''readpreferencetags''"
    by (simp add: strcasecmp0_literals tolower_if)
  have c: "spec_tag_group ''dc:ny,bad,rack:1'' =
      [(''dc'', BSON_UTF8 ''ny''), (''rack'', BSON_UTF8 ''1'')]"
    by (simp add: spec_tag_group_def spec_tag_pairs_def spec_split_unescaped.simps)
  have d: "map_option uri_read_prefs
     (mongoc_uri_new \<lparr> sizeof_host = 256, sizeof_host_and_port = 262 \<rparr>
        ''mongodb://h/?readpreferencetags=dc:ny&readpreferencetags=bad'') =
     Some [(''0'', BSON_DOCUMENT [(''dc'', BSON_UTF8 ''ny'')]), (''1'', BSON_DOCUMENT [])]"
    by (simp add: parser_eval)
  from read_preference_tags_group [OF a b, of uri_zero] c d show ?thesis
    by (simp add: uri_zero_def show_nat.simps)
qed

text \<open>
  C8: through \<open>mongoc_uri_new\<close> a tag value with a comma does not reach the option stage
  when the host is a network host. The host-list stage scans the whole rest of the
  string for a comma before it looks for \<open>/\<close> or \<open>?\<close>, so the comma is taken as a host
  separator: \<open>mongodb://h/?readpreferencetags=dc:ny,rack:1\<close> is refused, because \<open>ny\<close>
  is read as a port, and \<open>mongodb://h/?readpreferencetags=a:1,b\<close> is accepted with two
  hosts, the first with port 1, and with no tag group and no option.
\<close>

theorem tags_comma_taken_by_host_list:
  "mongoc_uri_new sz ''mongodb://h/?readpreferencetags=dc:ny,rack:1'' = None \<and>
   map_option uri_read_prefs (mongoc_uri_new sz ''mongodb://h/?readpreferencetags=a:1,b'') =
     Some [] \<and>
   map_option uri_options (mongoc_uri_new sz ''mongodb://h/?readpreferencetags=a:1,b'') =
     Some [] \<and>
   map_option (map host_entry \<circ> uri_hosts)
     (mongoc_uri_new sz ''mongodb://h/?readpreferencetags=a:1,b'') =
     Some [(take (sizeof_host sz - 1) ''h/?readpreferencetags=a'', 1, AF_INET),
           (take (sizeof_host sz - 1) ''b'', 27017, AF_INET)]"
  by (simp add: parser_eval host_entry_def)

lemma scan_step_advance:
  "scan_to_unichar_step stop iter = Again iter' \<Longrightarrow> length iter' < length iter"
  by (auto simp: scan_to_unichar_step_def split: list.splits if_splits)

lemma run_steps_enough:
  assumes adv: "\<And>st st'. body st = Again st' \<Longrightarrow> m st' < m st"
    and unfold: "\<And>st. loop st = (case body st of Again st' \<Rightarrow> loop st' | Return r \<Rightarrow> r)"
  shows "m st < n \<Longrightarrow> run_steps n body st = Some (loop st)"
proof (induction n arbitrary: st)
  case 0
  then show ?case by simp
next
  case (Suc n)
  show ?case
  proof (cases "body st")
    case (Again st')
    from adv [OF Again] Suc.prems have "m st' < n" by simp
    from Suc.IH [OF this] Again unfold [of st] show ?thesis by simp
  next
    case (Return r)
    with unfold [of st] show ?thesis by simp
  qed
qed

lemma scan_steps_enough:
  "length iter < n \<Longrightarrow>
     run_steps n (scan_to_unichar_step stop) iter = Some (map_option snd (scan_to_unichar iter stop))"
proof (induction iter stop arbitrary: n rule: scan_to_unichar.induct)
  case (1 stop)
  then show ?case by (cases n) (simp_all add: scan_to_unichar_step_def)
next
  case (2 c cs stop)
  from "2.prems" obtain k where n: "n = Suc k" by (cases n) auto
  show ?case
  proof (cases "c = stop")
    case True
    with n show ?thesis by (simp add: scan_to_unichar_step_def)
  next
    case ne: False
    show ?thesis
    proof (cases "c = CHR 0x5C")
      case True
      show ?thesis
      proof (cases cs)
        case Nil
        with ne True n show ?thesis by (simp add: scan_to_unichar_step_def)
      next
        case (Cons d ds)
        from "2.prems" n Cons have "length ds < k" by simp
        from "2.IH"(1) [OF ne True Cons this] ne True n Cons show ?thesis
          by (simp add: scan_to_unichar_step_def option.map_comp comp_def split_def)
      qed
    next
      case False
      from "2.prems" n have "length cs < k" by simp
      from "2.IH"(2) [OF ne False this] ne False n show ?thesis
        by (simp add: scan_to_unichar_step_def option.map_comp comp_def split_def)
    qed
  qed
qed

text \<open>
  C9: the parser terminates on every string. A pass through any of the four loops
  (the scanner, the host list, the option list, the tag group) that goes round again
  does so with a strictly shorter remaining string, and each loop, run from a cursor
  \<open>str\<close>, has returned after at most \<open>length str + 1\<close> passes with the result the model
  gives for it.
\<close>

theorem loops_advance_and_return:
  "(scan_to_unichar_step stop str = Again str' \<longrightarrow> length str' < length str) \<and>
   (mongoc_uri_parse_hosts_step sz end0 (uri, str, ret) = Again (uri', str', ret') \<longrightarrow>
      length str' < length str) \<and>
   (mongoc_uri_parse_options_step (uri, str) = Again (uri', str') \<longrightarrow>
      length str' < length str) \<and>
   (mongoc_uri_parse_read_prefs_step (b, str) = Again (b', str') \<longrightarrow>
      length str' < length str) \<and>
   run_steps (Suc (length str)) (scan_to_unichar_step stop) str =
     Some (map_option snd (scan_to_unichar str stop)) \<and>
   run_steps (Suc (length str)) (mongoc_uri_parse_hosts_step sz end0) (uri, str, ret) =
     Some (mongoc_uri_parse_hosts_loop sz end0 (uri, str, ret)) \<and>
   run_steps (Suc (length str)) mongoc_uri_parse_options_step (uri, str) =
     Some (mongoc_uri_parse_options_loop (uri, str)) \<and>
   run_steps (Suc (length str)) mongoc_uri_parse_read_prefs_step (b, str) =
     Some (mongoc_uri_parse_read_prefs_loop (b, str))"
proof -
  have hosts: "run_steps (Suc (length str)) (mongoc_uri_parse_hosts_step sz end0) (uri, str, ret) =
      Some (mongoc_uri_parse_hosts_loop sz end0 (uri, str, ret))"
    by (rule run_steps_enough [where m = "\<lambda>(uri, str, ret). length str"])
       (auto dest: hosts_step_advance simp: mongoc_uri_parse_hosts_loop.simps [symmetric])
  have opts: "run_steps (Suc (length str)) mongoc_uri_parse_options_step (uri, str) =
      Some (mongoc_uri_parse_options_loop (uri, str))"
    by (rule run_steps_enough [where m = "\<lambda>(uri, str). length str"])
       (auto dest: options_step_advance simp: mongoc_uri_parse_options_loop.simps [symmetric])
  have tags: "run_steps (Suc (length str)) mongoc_uri_parse_read_prefs_step (b, str) =
      Some (mongoc_uri_parse_read_prefs_loop (b, str))"
    by (rule run_steps_enough [where m = "\<lambda>(b, str). length str"])
       (auto dest: read_prefs_step_advance simp: mongoc_uri_parse_read_prefs_loop.simps [symmetric])
  have scan: "run_steps (Suc (length str)) (scan_to_unichar_step stop) str =
      Some (map_option snd (scan_to_unichar str stop))"
    by (rule scan_steps_enough) simp
  have a1: "scan_to_unichar_step stop str = Again str' \<longrightarrow> length str' < length str"
    by (blast dest: scan_step_advance)
  have a2: "mongoc_uri_parse_hosts_step sz end0 (uri, str, ret) = Again (uri', str', ret') \<longrightarrow>
      length str' < length str"
    by (blast dest: hosts_step_advance)
  have a3: "mongoc_uri_parse_options_step (uri, str) = Again (uri', str') \<longrightarrow>
      length str' < length str"
    by (blast dest: options_step_advance)
  have a4: "mongoc_uri_parse_read_prefs_step (b, str) = Again (b', str') \<longrightarrow>
      length str' < length str"
    by (blast dest: read_prefs_step_advance)
  show ?thesis by (intro conjI a1 a2 a3 a4 scan hosts opts tags)
qed

theorem loops_advance_and_return_witness:
  "mongoc_uri_parse_hosts_step \<lparr> sizeof_host = 256, sizeof_host_and_port = 262 \<rparr> ''a,b''
     (uri_zero, ''a,b'', False) =
   Again (mongoc_uri_append_host \<lparr> sizeof_host = 256, sizeof_host_and_port = 262 \<rparr>
            uri_zero ''a'' MONGOC_DEFAULT_PORT, ''b'', True) \<and>
   length ''b'' < length ''a,b'' \<and>
   run_steps (Suc (length ''a,b'')) (mongoc_uri_parse_hosts_step \<lparr> sizeof_host = 256, sizeof_host_and_port = 262 \<rparr>
     ''a,b'') (uri_zero, ''a,b'', False) =
   Some (mongoc_uri_parse_hosts_loop \<lparr> sizeof_host = 256, sizeof_host_and_port = 262 \<rparr> ''a,b''
     (uri_zero, ''a,b'', False))"
proof -
  let ?sz = "\<lparr> sizeof_host = 256, sizeof_host_and_port = 262 \<rparr>"
  have s: "mongoc_uri_parse_hosts_step ?sz ''a,b'' (uri_zero, ''a,b'', False) =
      Again (mongoc_uri_append_host ?sz uri_zero ''a'' MONGOC_DEFAULT_PORT, ''b'', True)"
    by (simp add: mongoc_uri_parse_hosts_step_def sock_path_def mongoc_uri_parse_host_def)
  from loops_advance_and_return [of "CHR '',''" "''a,b''" "''b''" ?sz "''a,b''" uri_zero False
      "mongoc_uri_append_host ?sz uri_zero ''a'' MONGOC_DEFAULT_PORT" True] s
  show ?thesis by (simp del: run_steps.simps)
qed

end
